theory Spec2Isabelle
  imports Main "HOL-Library.AList" "HOL-Library.Char_ord" "HOL-Library.List_Lexorder"
begin

section \<open>Python strings\<close>

text \<open>
  The graph code of \<^verbatim>\<open>backend/db/crud.py\<close> builds node ids, edge types and role
  codes with Python's string methods. Strings are modelled as \<^typ>\<open>string\<close>, one
  \<^typ>\<open>char\<close> per code point, for ASCII text: \<open>upper\<close> and \<open>lower\<close> change the 26
  letters and leave every other character as it is, and the white space removed by
  \<open>strip\<close> is the ASCII white space of \<^verbatim>\<open>str.isspace\<close> (code points 9 to 13, 28 to
  31 and 32). Leading underscores of Python names are dropped (\<^verbatim>\<open>_nid\<close> is \<open>nid\<close>).
\<close>

definition upper_char :: "char \<Rightarrow> char" where
  "upper_char c =
     (case map_of (zip ''abcdefghijklmnopqrstuvwxyz'' ''ABCDEFGHIJKLMNOPQRSTUVWXYZ'') c of
        Some u \<Rightarrow> u | None \<Rightarrow> c)"

definition lower_char :: "char \<Rightarrow> char" where
  "lower_char c =
     (case map_of (zip ''ABCDEFGHIJKLMNOPQRSTUVWXYZ'' ''abcdefghijklmnopqrstuvwxyz'') c of
        Some l \<Rightarrow> l | None \<Rightarrow> c)"

definition upper :: "string \<Rightarrow> string" where
  "upper s = map upper_char s"

definition lower :: "string \<Rightarrow> string" where
  "lower s = map lower_char s"

definition isspace :: "char \<Rightarrow> bool" where
  "isspace c = (c \<in> set [CHR 0x09, CHR 0x0A, CHR 0x0B, CHR 0x0C, CHR 0x0D,
                          CHR 0x1C, CHR 0x1D, CHR 0x1E, CHR 0x1F, CHR 0x20])"

definition lstrip :: "string \<Rightarrow> string" where
  "lstrip s = dropWhile isspace s"

definition rstrip :: "string \<Rightarrow> string" where
  "rstrip s = rev (dropWhile isspace (rev s))"

definition strip :: "string \<Rightarrow> string" where
  "strip s = rstrip (lstrip s)"

text \<open>\<^verbatim>\<open>s.rstrip("s")\<close>: trailing occurrences of the one character are removed.\<close>

definition rstrip_chars :: "char \<Rightarrow> string \<Rightarrow> string" where
  "rstrip_chars c s = rev (dropWhile (\<lambda>x. x = c) (rev s))"

text \<open>\<^verbatim>\<open>s.capitalize()\<close>: first character upper case, the rest lower case.\<close>

definition capitalize :: "string \<Rightarrow> string" where
  "capitalize s = (case s of [] \<Rightarrow> [] | c # cs \<Rightarrow> upper_char c # lower cs)"

definition startswith :: "string \<Rightarrow> string \<Rightarrow> bool" where
  "startswith s p = (take (length p) s = p)"

text \<open>\<^verbatim>\<open>a or b\<close> on an optional string: \<open>None\<close> and the empty string are falsy.\<close>

definition str_or :: "string option \<Rightarrow> string \<Rightarrow> string" where
  "str_or a b = (case a of None \<Rightarrow> b | Some s \<Rightarrow> if s = [] then b else s)"

subsection \<open>Integers as decimal text\<close>

definition digit_char :: "nat \<Rightarrow> char" where
  "digit_char d = char_of (48 + d)"

definition isdigit :: "char \<Rightarrow> bool" where
  "isdigit c = (48 \<le> (of_char c :: nat) \<and> (of_char c :: nat) \<le> 57)"

definition digit_val :: "char \<Rightarrow> nat" where
  "digit_val c = of_char c - 48"

fun show_nat :: "nat \<Rightarrow> string" where
  "show_nat n = (if n < 10 then [digit_char n]
                 else show_nat (n div 10) @ [digit_char (n mod 10)])"

declare show_nat.simps [simp del]

text \<open>\<^verbatim>\<open>f"{int(i)}"\<close>: the decimal text of an integer.\<close>

definition show_int :: "int \<Rightarrow> string" where
  "show_int i = (if i < 0 then CHR ''-'' # show_nat (nat (- i)) else show_nat (nat i))"

definition digits_val :: "string \<Rightarrow> nat" where
  "digits_val ds = foldl (\<lambda>a c. 10 * a + digit_val c) 0 ds"

datatype error = ValueError | KeyError

text \<open>
  \<^verbatim>\<open>int(s)\<close> on text: an optional minus sign and decimal digits give the number, and
  anything else is a \<open>ValueError\<close>. (Python also accepts surrounding white space, a
  plus sign and underscores between digits; the graph code only ever passes the tail
  of a node id written by \<open>nid\<close>, so the model reports an error at least wherever Python
  does on the texts that are reachable.)
\<close>

definition py_int :: "string \<Rightarrow> error + int" where
  "py_int s =
     (if s \<noteq> [] \<and> hd s = CHR ''-'' then
        (if tl s \<noteq> [] \<and> list_all isdigit (tl s) then Inr (- int (digits_val (tl s)))
         else Inl ValueError)
      else if s \<noteq> [] \<and> list_all isdigit s then Inr (int (digits_val s))
      else Inl ValueError)"

section \<open>RACI roles\<close>

definition RACI_NAME :: "(string \<times> string) list" where
  "RACI_NAME = [(''R'', ''Responsible''), (''A'', ''Accountable''),
                (''C'', ''Consulted''), (''I'', ''Informed'')]"

definition RACI_INITIAL :: "(string \<times> string) list" where
  "RACI_INITIAL = [(''Responsible'', ''R''), (''Accountable'', ''A''),
                   (''Consulted'', ''C''), (''Informed'', ''I'')]"

text \<open>
  \<^verbatim>\<open>_normalize_raci(role)\<close>. A falsy role (\<open>None\<close> or the empty string) gives
  \<open>Informed\<close>; otherwise the stripped role is looked up as a one-letter code, and then
  by the first letter of its capitalized form, falling back to the capitalized form.
\<close>

definition normalize_raci :: "string option \<Rightarrow> string" where
  "normalize_raci role =
     (case role of
        None \<Rightarrow> ''Informed''
      | Some s \<Rightarrow>
          if s = [] then ''Informed''
          else
            let r = strip s; up = upper r in
            (case map_of RACI_NAME up of
               Some name \<Rightarrow> name
             | None \<Rightarrow>
                 let title = capitalize r in
                 (case map_of RACI_NAME (upper (take 1 title)) of
                    Some name \<Rightarrow> name
                  | None \<Rightarrow> title)))"

text \<open>
  The role code of an edge type, written inline at every place that emits a
  \<open>RACI:\<close> or \<open>ASSIGNEE:\<close> edge:
  \<^verbatim>\<open>_RACI_INITIAL.get(role, (role or 'R')[:1]).upper()\<close>
  (the subgraph code spells the same table as a local \<^verbatim>\<open>initial\<close>).
\<close>

definition raci_code :: "string option \<Rightarrow> string" where
  "raci_code role =
     upper (case (case role of None \<Rightarrow> None | Some s \<Rightarrow> map_of RACI_INITIAL s) of
              Some c \<Rightarrow> c
            | None \<Rightarrow> take 1 (str_or role ''R''))"

definition raci_etype :: "string option \<Rightarrow> string" where
  "raci_etype role = ''RACI:'' @ raci_code role"

definition assignee_etype :: "string option \<Rightarrow> string" where
  "assignee_etype role = ''ASSIGNEE:'' @ raci_code role"

section \<open>The entity store\<close>

text \<open>
  The store is read through SQLAlchemy queries; it is modelled as the tables the graph
  code reads, each a list of rows in the order a query returns them. \<open>entity\<close> is a row
  of one of the four entity tables (people, projects, tasks, groups) with the columns
  the graph code reads; a column that a table lacks, or a nullable column that is
  NULL, is \<open>None\<close>. Ids are Python integers.
\<close>

record entity =
  e_id :: int
  e_name :: string
  e_email :: "string option"
  e_status :: "string option"
  e_description :: "string option"
  e_project_id :: "int option"

record person_relation =
  from_person_id :: int
  to_person_id :: int
  rel_type :: "string option"

record project_lead =
  pl_project_id :: int
  pl_person_id :: int
  pl_role :: "string option"

record task_assignee =
  ta_task_id :: int
  ta_person_id :: int
  ta_role :: "string option"

record db =
  people :: "entity list"
  projects :: "entity list"
  tasks :: "entity list"
  groups :: "entity list"
  person_relations :: "person_relation list"
  project_leads :: "project_lead list"
  all_task_assignees :: "task_assignee list"
  person_group_table :: "(int \<times> int) list"
  project_group :: "(int \<times> int) list"

text \<open>
  \<open>person_group_table\<close> holds the pairs \<open>(person_id, group_id)\<close> and \<open>project_group\<close>
  the pairs \<open>(project_id, group_id)\<close>, as the \<^verbatim>\<open>select\<close> statements project them.
  \<^verbatim>\<open>t.task_assignees\<close> is the relationship of a task to its assignee rows.
\<close>

definition task_assignees :: "db \<Rightarrow> entity \<Rightarrow> task_assignee list" where
  "task_assignees d t = filter (\<lambda>ta. ta_task_id ta = e_id t) (all_task_assignees d)"

section \<open>Python dictionaries and sets\<close>

text \<open>
  A dictionary is an association list in insertion order: storing under a key that is
  present replaces the value in place, a new key goes to the end. A set is a list
  without duplicates: \<^verbatim>\<open>s.add(x)\<close> is \<^const>\<open>List.insert\<close>, \<^verbatim>\<open>x in s\<close> is membership
  and \<^verbatim>\<open>len(s)\<close> is the length.
\<close>

definition dict_of :: "('k \<times> 'v) list \<Rightarrow> ('k \<times> 'v) list" where
  "dict_of kvs = fold (\<lambda>(k, v) d. AList.update k v d) kvs []"

text \<open>\<^verbatim>\<open>{r.id: r for r in rows}\<close>\<close>

definition by_id :: "entity list \<Rightarrow> (int \<times> entity) list" where
  "by_id rows = dict_of (map (\<lambda>r. (e_id r, r)) rows)"

text \<open>\<^verbatim>\<open>d[k].add(v)\<close> on a \<^verbatim>\<open>defaultdict(set)\<close>, \<^verbatim>\<open>d[k].append(v)\<close> on a
  \<^verbatim>\<open>defaultdict(list)\<close>.\<close>

definition dd_add :: "'k \<Rightarrow> 'v \<Rightarrow> ('k \<times> 'v list) list \<Rightarrow> ('k \<times> 'v list) list" where
  "dd_add k v d =
     AList.update k (List.insert v (case map_of d k of None \<Rightarrow> [] | Some s \<Rightarrow> s)) d"

definition dd_append :: "'k \<Rightarrow> 'v \<Rightarrow> ('k \<times> 'v list) list \<Rightarrow> ('k \<times> 'v list) list" where
  "dd_append k v d =
     AList.update k ((case map_of d k of None \<Rightarrow> [] | Some s \<Rightarrow> s) @ [v]) d"

text \<open>\<^verbatim>\<open>sorted(set(xs))\<close>\<close>

definition sorted_set :: "'a::linorder list \<Rightarrow> 'a list" where
  "sorted_set xs = sort (remdups xs)"

text \<open>
  The double loop \<^verbatim>\<open>for i in range(len(u)): for j in range(i + 1, len(u)):\<close> with the
  body applied to \<^verbatim>\<open>u[i], u[j]\<close>.
\<close>

fun for_pairs :: "('a \<Rightarrow> 'a \<Rightarrow> 's \<Rightarrow> 's) \<Rightarrow> 'a list \<Rightarrow> 's \<Rightarrow> 's" where
  "for_pairs f [] s = s"
| "for_pairs f (a # rest) s = for_pairs f rest (fold (\<lambda>b. f a b) rest s)"

section \<open>Graph output and the state of one build\<close>

datatype jval = JNull | JStr string | JObj "(string \<times> jval) list"

definition jopt :: "string option \<Rightarrow> jval" where
  "jopt v = (case v of None \<Rightarrow> JNull | Some s \<Rightarrow> JStr s)"

text \<open>
  A node is \<^verbatim>\<open>{"data": {"id": ..., "type": ..., ...}}\<close>: the id, the type and the
  remaining keys in order. An edge is \<^verbatim>\<open>{"data": {"source", "target", "type", **meta}}\<close>.
\<close>

record node =
  n_id :: string
  n_type :: string
  n_fields :: "(string \<times> jval) list"

record edge =
  e_source :: string
  e_target :: string
  e_type :: string
  e_meta :: "(string \<times> jval) list"

definition edge_key :: "edge \<Rightarrow> string \<times> string \<times> string" where
  "edge_key e = (e_source e, e_target e, e_type e)"

text \<open>The local variables that \<^verbatim>\<open>add_node\<close> and \<^verbatim>\<open>add_edge\<close> close over.\<close>

record gstate =
  nodes :: "node list"
  edges :: "edge list"
  seen_nodes :: "(string \<times> int) list"
  node_ids :: "string list"
  seen_edges :: "(string \<times> string \<times> string) list"

definition init_gstate :: gstate where
  "init_gstate = \<lparr>nodes = [], edges = [], seen_nodes = [], node_ids = [], seen_edges = []\<rparr>"

definition GRAPH_SCHEMA :: "string list \<times> (string \<times> string \<times> string) list" where
  "GRAPH_SCHEMA =
     ([''person'', ''project'', ''task'', ''group''],
      [(''MANAGES'', ''person'', ''person''), (''MENTOR'', ''person'', ''person''),
       (''PEER'', ''person'', ''person''), (''CO_LOCATED'', ''person'', ''person''),
       (''RACI:R'', ''person'', ''project''), (''RACI:A'', ''person'', ''project''),
       (''RACI:C'', ''person'', ''project''), (''RACI:I'', ''person'', ''project''),
       (''PART_OF'', ''task'', ''project''),
       (''ASSIGNEE:R'', ''person'', ''task''), (''ASSIGNEE:A'', ''person'', ''task''),
       (''ASSIGNEE:C'', ''person'', ''task''), (''ASSIGNEE:I'', ''person'', ''task''),
       (''MEMBER_OF'', ''person'', ''group''), (''IN_GROUP'', ''project'', ''group''),
       (''COLLAB:TASK'', ''person'', ''person''), (''COLLAB:PROJECT'', ''person'', ''person'')])"

record graph_response =
  resp_schema :: "string list \<times> (string \<times> string \<times> string) list"
  resp_nodes :: "node list"
  resp_edges :: "edge list"

definition safe_result :: "gstate \<Rightarrow> graph_response" where
  "safe_result st = \<lparr>resp_schema = GRAPH_SCHEMA, resp_nodes = nodes st, resp_edges = edges st\<rparr>"

text \<open>\<^verbatim>\<open>_nid(kind, _id)\<close>\<close>

definition nid :: "string \<Rightarrow> int \<Rightarrow> string" where
  "nid kind i = kind @ ''_'' @ show_int i"

section \<open>The full materializer\<close>

text \<open>\<^verbatim>\<open>get_graph_network.add_node(kind, row)\<close>\<close>

definition gn_add_node :: "string \<Rightarrow> entity \<Rightarrow> gstate \<Rightarrow> gstate" where
  "gn_add_node kind row st =
     (let key = (kind, e_id row) in
      if key \<in> set (seen_nodes st) then st
      else
        let nid_str = nid kind (e_id row);
            st1 = st\<lparr>seen_nodes := List.insert key (seen_nodes st),
                     node_ids := List.insert nid_str (node_ids st)\<rparr>
        in
        if kind = ''person'' then
          st1\<lparr>nodes := nodes st1 @ [\<lparr>n_id = nid_str, n_type = ''person'',
             n_fields = [(''label'', JStr (e_name row)), (''email'', jopt (e_email row))]\<rparr>]\<rparr>
        else if kind = ''project'' then
          st1\<lparr>nodes := nodes st1 @ [\<lparr>n_id = nid_str, n_type = ''project'',
             n_fields = [(''label'', JStr (e_name row)), (''status'', jopt (e_status row)),
               (''detail'', JObj [(''description'', jopt (e_description row))])]\<rparr>]\<rparr>
        else if kind = ''task'' then
          st1\<lparr>nodes := nodes st1 @ [\<lparr>n_id = nid_str, n_type = ''task'',
             n_fields = [(''label'', JStr (e_name row)), (''status'', jopt (e_status row)),
               (''detail'', JObj [(''description'', jopt (e_description row))])]\<rparr>]\<rparr>
        else if kind = ''group'' then
          st1\<lparr>nodes := nodes st1 @ [\<lparr>n_id = nid_str, n_type = ''group'',
             n_fields = [(''label'', JStr (e_name row))]\<rparr>]\<rparr>
        else st1)"

text \<open>\<^verbatim>\<open>get_graph_network.add_edge(src, dst, etype, **meta)\<close>\<close>

definition gn_add_edge ::
  "string \<Rightarrow> string \<Rightarrow> string \<Rightarrow> (string \<times> jval) list \<Rightarrow> gstate \<Rightarrow> gstate" where
  "gn_add_edge src dst etype meta st =
     (if src \<notin> set (node_ids st) \<or> dst \<notin> set (node_ids st) then st
      else
        let k = (src, dst, etype) in
        if k \<in> set (seen_edges st) then st
        else st\<lparr>seen_edges := List.insert k (seen_edges st),
                edges := edges st @
                  [\<lparr>e_source = src, e_target = dst, e_type = etype, e_meta = meta\<rparr>]\<rparr>)"

text \<open>
  The loops of \<^verbatim>\<open>get_graph_network\<close>, one definition for each, in the order of the
  source. \<open>have_ids\<close> is the set of ids of the rows loaded for a kind. A foreign key is
  tested for truth before it is looked up (\<^verbatim>\<open>t.project_id and ...\<close>), so \<open>None\<close> and
  \<open>0\<close> both skip the edge.
\<close>

definition have_ids :: "entity list \<Rightarrow> int list" where
  "have_ids rows = remdups (map e_id rows)"

definition gn_rel_step :: "db \<Rightarrow> person_relation \<Rightarrow> gstate \<Rightarrow> gstate" where
  "gn_rel_step d r st =
     (if from_person_id r \<in> set (have_ids (people d)) \<and> to_person_id r \<in> set (have_ids (people d))
      then gn_add_edge (nid ''person'' (from_person_id r)) (nid ''person'' (to_person_id r))
             (upper (str_or (rel_type r) ''REL'')) [] st
      else st)"

definition gn_lead_step :: "db \<Rightarrow> project_lead \<Rightarrow> gstate \<Rightarrow> gstate" where
  "gn_lead_step d pl st =
     (if pl_person_id pl \<in> set (have_ids (people d)) \<and> pl_project_id pl \<in> set (have_ids (projects d))
      then gn_add_edge (nid ''person'' (pl_person_id pl)) (nid ''project'' (pl_project_id pl))
             (raci_etype (pl_role pl)) [] st
      else st)"

definition gn_assignee_step :: "db \<Rightarrow> entity \<Rightarrow> task_assignee \<Rightarrow> gstate \<Rightarrow> gstate" where
  "gn_assignee_step d t ta st =
     (if ta_person_id ta \<in> set (have_ids (people d))
      then gn_add_edge (nid ''person'' (ta_person_id ta)) (nid ''task'' (e_id t))
             (assignee_etype (ta_role ta)) [] st
      else st)"

definition gn_task_step :: "db \<Rightarrow> entity \<Rightarrow> gstate \<Rightarrow> gstate" where
  "gn_task_step d t st =
     (let st1 =
        (case e_project_id t of
           None \<Rightarrow> st
         | Some p \<Rightarrow>
             if p \<noteq> 0 \<and> p \<in> set (have_ids (projects d))
             then gn_add_edge (nid ''task'' (e_id t)) (nid ''project'' p) ''PART_OF'' [] st
             else st)
      in fold (gn_assignee_step d t) (task_assignees d t) st1)"

definition gn_member_step :: "db \<Rightarrow> int \<times> int \<Rightarrow> gstate \<Rightarrow> gstate" where
  "gn_member_step d row st =
     (case row of (pid, gid) \<Rightarrow>
        if pid \<in> set (have_ids (people d)) \<and> gid \<in> set (have_ids (groups d))
        then gn_add_edge (nid ''person'' pid) (nid ''group'' gid) ''MEMBER_OF'' [] st
        else st)"

definition gn_in_group_step :: "db \<Rightarrow> int \<times> int \<Rightarrow> gstate \<Rightarrow> gstate" where
  "gn_in_group_step d row st =
     (case row of (prid, gid) \<Rightarrow>
        if prid \<in> set (have_ids (projects d)) \<and> gid \<in> set (have_ids (groups d))
        then gn_add_edge (nid ''project'' prid) (nid ''group'' gid) ''IN_GROUP'' [] st
        else st)"

text \<open>\<^verbatim>\<open>task_to_people\<close> and \<^verbatim>\<open>proj_to_leads\<close>, the two \<^verbatim>\<open>defaultdict(list)\<close>.\<close>

definition task_to_people :: "db \<Rightarrow> (int \<times> int list) list" where
  "task_to_people d =
     fold (\<lambda>t m. fold (\<lambda>ta m'.
             if ta_person_id ta \<in> set (have_ids (people d))
             then dd_append (e_id t) (ta_person_id ta) m' else m')
           (task_assignees d t) m)
       (tasks d) []"

definition proj_to_leads :: "db \<Rightarrow> (int \<times> int list) list" where
  "proj_to_leads d =
     fold (\<lambda>pl m.
             if pl_person_id pl \<in> set (have_ids (people d)) \<and>
                pl_project_id pl \<in> set (have_ids (projects d))
             then dd_append (pl_project_id pl) (pl_person_id pl) m else m)
       (project_leads d) []"

definition gn_collab_pair :: "string \<Rightarrow> int \<Rightarrow> int \<Rightarrow> gstate \<Rightarrow> gstate" where
  "gn_collab_pair etype a b st =
     gn_add_edge (nid ''person'' b) (nid ''person'' a) etype []
       (gn_add_edge (nid ''person'' a) (nid ''person'' b) etype [] st)"

definition gn_collab :: "string \<Rightarrow> (int \<times> int list) list \<Rightarrow> gstate \<Rightarrow> gstate" where
  "gn_collab etype groups_of st =
     fold (\<lambda>(_, pid_list). for_pairs (gn_collab_pair etype) (sorted_set pid_list)) groups_of st"

text \<open>All nodes are emitted first, then the edges.\<close>

definition gn_emit_nodes :: "db \<Rightarrow> gstate \<Rightarrow> gstate" where
  "gn_emit_nodes d st =
     (let st = fold (gn_add_node ''person'') (people d) st;
          st = fold (gn_add_node ''project'') (projects d) st;
          st = fold (gn_add_node ''task'') (tasks d) st;
          st = fold (gn_add_node ''group'') (groups d) st
      in st)"

definition gn_emit_edges :: "db \<Rightarrow> gstate \<Rightarrow> gstate" where
  "gn_emit_edges d st =
     (let st = fold (gn_rel_step d) (person_relations d) st;
          st = fold (gn_lead_step d) (project_leads d) st;
          st = fold (gn_task_step d) (tasks d) st;
          st = fold (gn_member_step d) (person_group_table d) st;
          st = fold (gn_in_group_step d) (project_group d) st;
          st = gn_collab ''COLLAB:TASK'' (task_to_people d) st;
          st = gn_collab ''COLLAB:PROJECT'' (proj_to_leads d) st
      in st)"

definition gn_build :: "db \<Rightarrow> gstate" where
  "gn_build d = gn_emit_edges d (gn_emit_nodes d init_gstate)"

definition get_graph_network :: "db \<Rightarrow> graph_response" where
  "get_graph_network d = safe_result (gn_build d)"

section \<open>The bounded subgraph traversal\<close>

subsection \<open>Center tokens\<close>

text \<open>
  \<^verbatim>\<open>_NODE_RE\<close> is \<^verbatim>\<open>^(person|people|project|projects|task|tasks|group|groups)_(\d+)$\<close>,
  case-insensitive. The alternatives are tried in order; one matches when the text
  starts with it (ignoring case) and goes on with an underscore and one or more digits
  up to the end. The result is the two groups as they stand in the text.
\<close>

definition kind_aliases :: "string list" where
  "kind_aliases = [''person'', ''people'', ''project'', ''projects'',
                   ''task'', ''tasks'', ''group'', ''groups'']"

fun match_alternatives :: "string list \<Rightarrow> string \<Rightarrow> (string \<times> string) option" where
  "match_alternatives [] s = None"
| "match_alternatives (a # alts) s =
     (if lower (take (length a) s) = a \<and>
         (case drop (length a) s of
            [] \<Rightarrow> False
          | c # ds \<Rightarrow> c = CHR ''_'' \<and> ds \<noteq> [] \<and> list_all isdigit ds)
      then Some (take (length a) s, drop (Suc (length a)) s)
      else match_alternatives alts s)"

definition NODE_RE_match :: "string \<Rightarrow> (string \<times> string) option" where
  "NODE_RE_match s = match_alternatives kind_aliases s"

text \<open>\<^verbatim>\<open>_parse_node_id(nid)\<close>: raises \<open>ValueError\<close> when the stripped token does not match.\<close>

definition parse_node_id :: "string \<Rightarrow> error + (string \<times> int)" where
  "parse_node_id token =
     (case NODE_RE_match (strip token) of
        None \<Rightarrow> Inl ValueError
      | Some (g1, g2) \<Rightarrow>
          let kind = lower g1;
              kind = (case map_of [(''people'', ''person''), (''projects'', ''project''),
                                   (''tasks'', ''task''), (''groups'', ''group'')] kind of
                        Some k \<Rightarrow> k
                      | None \<Rightarrow> rstrip_chars CHR ''s'' kind)
          in Inr (kind, int (digits_val g2)))"

subsection \<open>Frontier\<close>

text \<open>The dictionary of four id sets, keyed by kind.\<close>

record frontier =
  f_project :: "int list"
  f_task :: "int list"
  f_person :: "int list"
  f_group :: "int list"

definition empty_frontier :: frontier where
  "empty_frontier = \<lparr>f_project = [], f_task = [], f_person = [], f_group = []\<rparr>"

text \<open>\<^verbatim>\<open>frontier[kind].add(i)\<close>: a kind that is no key of the dictionary is a \<open>KeyError\<close>.\<close>

definition frontier_add :: "string \<Rightarrow> int \<Rightarrow> frontier \<Rightarrow> error + frontier" where
  "frontier_add kind i fr =
     (if kind = ''project'' then Inr (fr\<lparr>f_project := List.insert i (f_project fr)\<rparr>)
      else if kind = ''task'' then Inr (fr\<lparr>f_task := List.insert i (f_task fr)\<rparr>)
      else if kind = ''person'' then Inr (fr\<lparr>f_person := List.insert i (f_person fr)\<rparr>)
      else if kind = ''group'' then Inr (fr\<lparr>f_group := List.insert i (f_group fr)\<rparr>)
      else Inl KeyError)"

text \<open>\<^verbatim>\<open>any(frontier.values())\<close>\<close>

definition any_frontier :: "frontier \<Rightarrow> bool" where
  "any_frontier fr =
     (f_project fr \<noteq> [] \<or> f_task fr \<noteq> [] \<or> f_person fr \<noteq> [] \<or> f_group fr \<noteq> [])"

text \<open>
  The body of the seeding loop: the \<^verbatim>\<open>try\<close> covers the parse and the insertion, and
  \<^verbatim>\<open>except Exception: continue\<close> drops the token on any error.
\<close>

definition seed_step :: "string \<Rightarrow> frontier \<Rightarrow> frontier" where
  "seed_step token fr =
     (case parse_node_id token of
        Inl _ \<Rightarrow> fr
      | Inr (kind, i) \<Rightarrow>
          (case frontier_add kind i fr of Inl _ \<Rightarrow> fr | Inr fr' \<Rightarrow> fr'))"

definition seed_frontier :: "string list \<Rightarrow> frontier" where
  "seed_frontier centers = fold seed_step centers empty_frontier"

subsection \<open>The two adders\<close>

definition opt_field :: "string \<Rightarrow> string option \<Rightarrow> (string \<times> jval) list" where
  "opt_field k v = (case v of None \<Rightarrow> [] | Some s \<Rightarrow> [(k, JStr s)])"

text \<open>\<^verbatim>\<open>get_entity_subgraph.add_node(kind, obj_id, label=, status=, email=)\<close>\<close>

definition sg_add_node ::
  "int \<Rightarrow> string \<Rightarrow> int \<Rightarrow> string option \<Rightarrow> string option \<Rightarrow> string option \<Rightarrow>
   gstate \<Rightarrow> gstate" where
  "sg_add_node max_nodes kind obj_id label status email st =
     (if int (length (seen_nodes st)) \<ge> max_nodes then st
      else
        let key = (kind, obj_id) in
        if key \<in> set (seen_nodes st) then st
        else
          let nid_str = nid kind obj_id in
          st\<lparr>seen_nodes := List.insert key (seen_nodes st),
             node_ids := List.insert nid_str (node_ids st),
             nodes := nodes st @
               [\<lparr>n_id = nid_str, n_type = kind,
                 n_fields = opt_field ''label'' label @ opt_field ''status'' status @
                            opt_field ''email'' email\<rparr>]\<rparr>)"

text \<open>\<^verbatim>\<open>get_entity_subgraph.add_edge(src, dst, etype, **meta)\<close>\<close>

definition sg_add_edge ::
  "int \<Rightarrow> string \<Rightarrow> string \<Rightarrow> string \<Rightarrow> (string \<times> jval) list \<Rightarrow> gstate \<Rightarrow> gstate" where
  "sg_add_edge max_edges src dst etype meta st =
     (if int (length (seen_edges st)) \<ge> max_edges then st
      else if src \<notin> set (node_ids st) \<or> dst \<notin> set (node_ids st) then st
      else
        let key = (src, dst, etype) in
        if key \<in> set (seen_edges st) then st
        else st\<lparr>edges := edges st @
                  [\<lparr>e_source = src, e_target = dst, e_type = etype, e_meta = meta\<rparr>],
                seen_edges := List.insert key (seen_edges st)\<rparr>)"

subsection \<open>Queries\<close>

text \<open>\<^verbatim>\<open>db.query(M).filter(M.id.in_(ids)).all()\<close>\<close>

definition rows_in :: "entity list \<Rightarrow> int list \<Rightarrow> entity list" where
  "rows_in rows ids = filter (\<lambda>r. e_id r \<in> set ids) rows"

text \<open>
  \<^verbatim>\<open>db.query(Task).filter(Task.project_id.in_(proj_ids)).all()\<close>: a NULL project id is
  in no list, so every row comes with its project id.
\<close>

definition tasks_of_projects :: "db \<Rightarrow> int list \<Rightarrow> (entity \<times> int) list" where
  "tasks_of_projects d proj_ids =
     concat (map (\<lambda>t. case e_project_id t of
                         None \<Rightarrow> []
                       | Some p \<Rightarrow> if p \<in> set proj_ids then [(t, p)] else [])
                 (tasks d))"

subsection \<open>Materializing the centers\<close>

definition materialize_centers :: "db \<Rightarrow> int \<Rightarrow> frontier \<Rightarrow> gstate \<Rightarrow> gstate" where
  "materialize_centers d max_nodes fr st =
     (let st = (if f_project fr \<noteq> [] then
                  fold (\<lambda>pr. sg_add_node max_nodes ''project'' (e_id pr)
                               (Some (e_name pr)) (e_status pr) None)
                       (rows_in (projects d) (f_project fr)) st
                else st);
          st = (if f_task fr \<noteq> [] then
                  fold (\<lambda>t. sg_add_node max_nodes ''task'' (e_id t)
                              (Some (e_name t)) (e_status t) None)
                       (rows_in (tasks d) (f_task fr)) st
                else st);
          st = (if f_person fr \<noteq> [] then
                  fold (\<lambda>p. sg_add_node max_nodes ''person'' (e_id p)
                              (Some (e_name p)) None (e_email p))
                       (rows_in (people d) (f_person fr)) st
                else st);
          st = (if f_group fr \<noteq> [] then
                  fold (\<lambda>g. sg_add_node max_nodes ''group'' (e_id g)
                              (Some (e_name g)) None None)
                       (rows_in (groups d) (f_group fr)) st
                else st)
      in st)"

subsection \<open>One hop\<close>

text \<open>
  Every loop body of the hop adds a node, adds an edge and puts an id into
  \<^verbatim>\<open>next_frontier\<close>. The state of a hop is the build state paired with
  \<^verbatim>\<open>next_frontier\<close>. A body that finds no row in its lookup dictionary
  (\<^verbatim>\<open>if not p: continue\<close>) leaves the state as it is.
\<close>

type_synonym hop_state = "gstate \<times> frontier"

text \<open>Project frontier: tasks of the projects.\<close>

definition hop_proj_task_step :: "int \<Rightarrow> int \<Rightarrow> entity \<times> int \<Rightarrow> hop_state \<Rightarrow> hop_state" where
  "hop_proj_task_step mn me row s =
     (case (row, s) of ((t, project_id), (st, nf)) \<Rightarrow>
        (sg_add_edge me (nid ''task'' (e_id t)) (nid ''project'' project_id) ''PART_OF'' []
           (sg_add_node mn ''task'' (e_id t) (Some (e_name t)) (e_status t) None st),
         nf\<lparr>f_task := List.insert (e_id t) (f_task nf)\<rparr>))"

text \<open>Leads of projects (the same loop in the project and in the task frontier).\<close>

definition hop_lead_step ::
  "int \<Rightarrow> int \<Rightarrow> (int \<times> entity) list \<Rightarrow> project_lead \<Rightarrow> hop_state \<Rightarrow> hop_state" where
  "hop_lead_step mn me people_map pl s =
     (case s of (st, nf) \<Rightarrow>
        (case map_of people_map (pl_person_id pl) of
           None \<Rightarrow> s
         | Some p \<Rightarrow>
             (sg_add_edge me (nid ''person'' (e_id p)) (nid ''project'' (pl_project_id pl))
                (raci_etype (pl_role pl)) []
                (sg_add_node mn ''person'' (e_id p) (Some (e_name p)) None (e_email p) st),
              nf\<lparr>f_person := List.insert (e_id p) (f_person nf)\<rparr>)))"

text \<open>Project frontier: groups of the projects.\<close>

definition hop_proj_group_step ::
  "int \<Rightarrow> int \<Rightarrow> (int \<times> entity) list \<Rightarrow> int \<times> int \<Rightarrow> hop_state \<Rightarrow> hop_state" where
  "hop_proj_group_step mn me groups_map row s =
     (case (row, s) of ((pr_id, gid), (st, nf)) \<Rightarrow>
        (case map_of groups_map gid of
           None \<Rightarrow> s
         | Some g \<Rightarrow>
             (sg_add_edge me (nid ''project'' pr_id) (nid ''group'' (e_id g)) ''IN_GROUP'' []
                (sg_add_node mn ''group'' (e_id g) (Some (e_name g)) None None st),
              nf\<lparr>f_group := List.insert (e_id g) (f_group nf)\<rparr>)))"

definition expand_project :: "db \<Rightarrow> int \<Rightarrow> int \<Rightarrow> int list \<Rightarrow> hop_state \<Rightarrow> hop_state" where
  "expand_project d mn me proj_ids s =
     (if proj_ids = [] then s
      else
        let s = fold (hop_proj_task_step mn me) (tasks_of_projects d proj_ids) s;
            pls = filter (\<lambda>pl. pl_project_id pl \<in> set proj_ids) (project_leads d);
            pids = remdups (map pl_person_id pls);
            people_map = by_id (rows_in (people d) pids);
            s = fold (hop_lead_step mn me people_map) pls s;
            rows = filter (\<lambda>(pr_id, gid). pr_id \<in> set proj_ids) (project_group d);
            g_ids = map snd rows;
            groups_map = by_id (rows_in (groups d) g_ids)
        in fold (hop_proj_group_step mn me groups_map) rows s)"

text \<open>Task frontier: the owning project of each task.\<close>

definition hop_task_proj_step ::
  "int \<Rightarrow> int \<Rightarrow> (int \<times> entity) list \<Rightarrow> int \<times> int \<Rightarrow> hop_state \<Rightarrow> hop_state" where
  "hop_task_proj_step mn me projs_map row s =
     (case (row, s) of ((tid, pid), (st, nf)) \<Rightarrow>
        (case map_of projs_map pid of
           None \<Rightarrow> s
         | Some pr \<Rightarrow>
             (sg_add_edge me (nid ''task'' tid) (nid ''project'' (e_id pr)) ''PART_OF'' []
                (sg_add_node mn ''project'' (e_id pr) (Some (e_name pr)) (e_status pr) None st),
              nf\<lparr>f_project := List.insert (e_id pr) (f_project nf)\<rparr>)))"

text \<open>Task frontier: the assignees of the tasks.\<close>

definition hop_assignee_step ::
  "int \<Rightarrow> int \<Rightarrow> (int \<times> entity) list \<Rightarrow> task_assignee \<Rightarrow> hop_state \<Rightarrow> hop_state" where
  "hop_assignee_step mn me people_map a s =
     (case s of (st, nf) \<Rightarrow>
        (case map_of people_map (ta_person_id a) of
           None \<Rightarrow> s
         | Some p \<Rightarrow>
             (sg_add_edge me (nid ''person'' (ta_person_id a)) (nid ''task'' (ta_task_id a))
                (assignee_etype (ta_role a)) []
                (sg_add_node mn ''person'' (e_id p) (Some (e_name p)) None (e_email p) st),
              nf\<lparr>f_person := List.insert (e_id p) (f_person nf)\<rparr>)))"

text \<open>
  \<^verbatim>\<open>proj_for_task = {t.id: t.project_id for t in t_rows if t.project_id}\<close>: a project
  id that is \<open>None\<close> or \<open>0\<close> is falsy.
\<close>

definition proj_for_task :: "entity list \<Rightarrow> (int \<times> int) list" where
  "proj_for_task t_rows =
     dict_of (concat (map (\<lambda>t. case e_project_id t of
                                  None \<Rightarrow> []
                                | Some p \<Rightarrow> if p \<noteq> 0 then [(e_id t, p)] else [])
                          t_rows))"

definition expand_task :: "db \<Rightarrow> int \<Rightarrow> int \<Rightarrow> int list \<Rightarrow> hop_state \<Rightarrow> hop_state" where
  "expand_task d mn me task_ids s =
     (if task_ids = [] then s
      else
        let t_rows = rows_in (tasks d) task_ids;
            pft = proj_for_task t_rows;
            proj_ids2 = remdups (filter (\<lambda>pid. pid \<noteq> 0) (map snd pft));
            s = (if proj_ids2 = [] then s
                 else
                   let projs_map = by_id (rows_in (projects d) proj_ids2);
                       s = fold (hop_task_proj_step mn me projs_map) pft s;
                       pls2 = filter (\<lambda>pl. pl_project_id pl \<in> set proj_ids2) (project_leads d);
                       pids2 = remdups (map pl_person_id pls2);
                       people_map2 = by_id (rows_in (people d) pids2)
                   in fold (hop_lead_step mn me people_map2) pls2 s);
            tas = filter (\<lambda>a. ta_task_id a \<in> set task_ids) (all_task_assignees d);
            pids3 = remdups (map ta_person_id tas);
            people_map3 = by_id (rows_in (people d) pids3)
        in fold (hop_assignee_step mn me people_map3) tas s)"

text \<open>Person frontier: relations out of and into the persons.\<close>

definition rel_etype :: "person_relation \<Rightarrow> string" where
  "rel_etype r = upper (str_or (rel_type r) ''REL'')"

definition hop_rel_out_step ::
  "int \<Rightarrow> int \<Rightarrow> (int \<times> entity) list \<Rightarrow> person_relation \<Rightarrow> hop_state \<Rightarrow> hop_state" where
  "hop_rel_out_step mn me rel_people r s =
     (case s of (st, nf) \<Rightarrow>
        (case map_of rel_people (to_person_id r) of
           None \<Rightarrow> s
         | Some tgt \<Rightarrow>
             (sg_add_edge me (nid ''person'' (from_person_id r)) (nid ''person'' (to_person_id r))
                (rel_etype r) []
                (sg_add_node mn ''person'' (e_id tgt) (Some (e_name tgt)) None (e_email tgt) st),
              nf\<lparr>f_person := List.insert (e_id tgt) (f_person nf)\<rparr>)))"

definition hop_rel_in_step ::
  "int \<Rightarrow> int \<Rightarrow> (int \<times> entity) list \<Rightarrow> person_relation \<Rightarrow> hop_state \<Rightarrow> hop_state" where
  "hop_rel_in_step mn me rel_people r s =
     (case s of (st, nf) \<Rightarrow>
        (case map_of rel_people (from_person_id r) of
           None \<Rightarrow> s
         | Some src \<Rightarrow>
             (sg_add_edge me (nid ''person'' (from_person_id r)) (nid ''person'' (to_person_id r))
                (rel_etype r) []
                (sg_add_node mn ''person'' (e_id src) (Some (e_name src)) None (e_email src) st),
              nf\<lparr>f_person := List.insert (e_id src) (f_person nf)\<rparr>)))"

text \<open>Person frontier: groups, projects and tasks of the persons.\<close>

definition hop_member_group_step ::
  "int \<Rightarrow> int \<Rightarrow> (int \<times> entity) list \<Rightarrow> int \<times> int \<Rightarrow> hop_state \<Rightarrow> hop_state" where
  "hop_member_group_step mn me groups_map row s =
     (case (row, s) of ((pid, gid), (st, nf)) \<Rightarrow>
        (case map_of groups_map gid of
           None \<Rightarrow> s
         | Some g \<Rightarrow>
             (sg_add_edge me (nid ''person'' pid) (nid ''group'' (e_id g)) ''MEMBER_OF'' []
                (sg_add_node mn ''group'' (e_id g) (Some (e_name g)) None None st),
              nf\<lparr>f_group := List.insert (e_id g) (f_group nf)\<rparr>)))"

definition hop_person_lead_step ::
  "int \<Rightarrow> int \<Rightarrow> (int \<times> entity) list \<Rightarrow> project_lead \<Rightarrow> hop_state \<Rightarrow> hop_state" where
  "hop_person_lead_step mn me projs_map pl s =
     (case s of (st, nf) \<Rightarrow>
        (case map_of projs_map (pl_project_id pl) of
           None \<Rightarrow> s
         | Some pr \<Rightarrow>
             (sg_add_edge me (nid ''person'' (pl_person_id pl)) (nid ''project'' (e_id pr))
                (raci_etype (pl_role pl)) []
                (sg_add_node mn ''project'' (e_id pr) (Some (e_name pr)) (e_status pr) None st),
              nf\<lparr>f_project := List.insert (e_id pr) (f_project nf)\<rparr>)))"

definition hop_person_task_step ::
  "int \<Rightarrow> int \<Rightarrow> (int \<times> entity) list \<Rightarrow> task_assignee \<Rightarrow> hop_state \<Rightarrow> hop_state" where
  "hop_person_task_step mn me tasks_map a s =
     (case s of (st, nf) \<Rightarrow>
        (case map_of tasks_map (ta_task_id a) of
           None \<Rightarrow> s
         | Some t \<Rightarrow>
             (sg_add_edge me (nid ''person'' (ta_person_id a)) (nid ''task'' (e_id t))
                (assignee_etype (ta_role a)) []
                (sg_add_node mn ''task'' (e_id t) (Some (e_name t)) (e_status t) None st),
              nf\<lparr>f_task := List.insert (e_id t) (f_task nf)\<rparr>)))"

definition expand_person :: "db \<Rightarrow> int \<Rightarrow> int \<Rightarrow> int list \<Rightarrow> hop_state \<Rightarrow> hop_state" where
  "expand_person d mn me person_ids s =
     (if person_ids = [] then s
      else
        let rels_out = filter (\<lambda>r. from_person_id r \<in> set person_ids) (person_relations d);
            rels_in = filter (\<lambda>r. to_person_id r \<in> set person_ids) (person_relations d);
            rel_ids = remdups (map from_person_id rels_out @ map to_person_id rels_out @
                               map from_person_id rels_in @ map to_person_id rels_in);
            rel_people = by_id (rows_in (people d) rel_ids);
            s = fold (hop_rel_out_step mn me rel_people) rels_out s;
            s = fold (hop_rel_in_step mn me rel_people) rels_in s;
            rows = filter (\<lambda>(pid, gid). pid \<in> set person_ids) (person_group_table d);
            g_ids2 = map snd rows;
            groups_map2 = by_id (rows_in (groups d) g_ids2);
            s = fold (hop_member_group_step mn me groups_map2) rows s;
            pls3 = filter (\<lambda>pl. pl_person_id pl \<in> set person_ids) (project_leads d);
            proj_ids3 = remdups (map pl_project_id pls3);
            projs_map3 = by_id (rows_in (projects d) proj_ids3);
            s = fold (hop_person_lead_step mn me projs_map3) pls3 s;
            tas2 = filter (\<lambda>a. ta_person_id a \<in> set person_ids) (all_task_assignees d);
            task_ids2 = remdups (map ta_task_id tas2);
            tasks_map2 = by_id (rows_in (tasks d) task_ids2)
        in fold (hop_person_task_step mn me tasks_map2) tas2 s)"

text \<open>Group frontier: members and projects of the groups.\<close>

definition hop_group_member_step ::
  "int \<Rightarrow> int \<Rightarrow> (int \<times> entity) list \<Rightarrow> int \<times> int \<Rightarrow> hop_state \<Rightarrow> hop_state" where
  "hop_group_member_step mn me people_map row s =
     (case (row, s) of ((pid, gid), (st, nf)) \<Rightarrow>
        (case map_of people_map pid of
           None \<Rightarrow> s
         | Some p \<Rightarrow>
             (sg_add_edge me (nid ''person'' (e_id p)) (nid ''group'' gid) ''MEMBER_OF'' []
                (sg_add_node mn ''person'' (e_id p) (Some (e_name p)) None (e_email p) st),
              nf\<lparr>f_person := List.insert (e_id p) (f_person nf)\<rparr>)))"

definition hop_group_proj_step ::
  "int \<Rightarrow> int \<Rightarrow> (int \<times> entity) list \<Rightarrow> int \<times> int \<Rightarrow> hop_state \<Rightarrow> hop_state" where
  "hop_group_proj_step mn me projs_map row s =
     (case (row, s) of ((pr_id, gid), (st, nf)) \<Rightarrow>
        (case map_of projs_map pr_id of
           None \<Rightarrow> s
         | Some pr \<Rightarrow>
             (sg_add_edge me (nid ''project'' (e_id pr)) (nid ''group'' gid) ''IN_GROUP'' []
                (sg_add_node mn ''project'' (e_id pr) (Some (e_name pr)) (e_status pr) None st),
              nf\<lparr>f_project := List.insert (e_id pr) (f_project nf)\<rparr>)))"

definition expand_group :: "db \<Rightarrow> int \<Rightarrow> int \<Rightarrow> int list \<Rightarrow> hop_state \<Rightarrow> hop_state" where
  "expand_group d mn me group_ids s =
     (if group_ids = [] then s
      else
        let rows = filter (\<lambda>(pid, gid). gid \<in> set group_ids) (person_group_table d);
            pids4 = map fst rows;
            people_map4 = by_id (rows_in (people d) pids4);
            s = fold (hop_group_member_step mn me people_map4) rows s;
            rows2 = filter (\<lambda>(pr_id, gid). gid \<in> set group_ids) (project_group d);
            proj_ids4 = map fst rows2;
            projs_map4 = by_id (rows_in (projects d) proj_ids4)
        in fold (hop_group_proj_step mn me projs_map4) rows2 s)"

text \<open>The body of the hop loop after its two \<^verbatim>\<open>break\<close> tests.\<close>

definition hop :: "db \<Rightarrow> int \<Rightarrow> int \<Rightarrow> frontier \<Rightarrow> gstate \<Rightarrow> hop_state" where
  "hop d mn me fr st =
     expand_group d mn me (f_group fr)
       (expand_person d mn me (f_person fr)
         (expand_task d mn me (f_task fr)
           (expand_project d mn me (f_project fr) (st, empty_frontier))))"

text \<open>
  \<^verbatim>\<open>for _hop in range(1, max(0, degrees) + 1)\<close>: the loop runs at most
  \<open>nat (max 0 degrees)\<close> times and stops early on an empty frontier or a used-up budget.
\<close>

fun hops :: "db \<Rightarrow> int \<Rightarrow> int \<Rightarrow> nat \<Rightarrow> frontier \<Rightarrow> gstate \<Rightarrow> gstate" where
  "hops d mn me 0 fr st = st"
| "hops d mn me (Suc n) fr st =
     (if \<not> any_frontier fr then st
      else if int (length (seen_nodes st)) \<ge> mn \<or> int (length (seen_edges st)) \<ge> me then st
      else case hop d mn me fr st of (st', next_frontier) \<Rightarrow> hops d mn me n next_frontier st')"

subsection \<open>Collaboration edges\<close>

text \<open>\<^verbatim>\<open>i.split("_", 1)[1]\<close>, for a text with an underscore.\<close>

definition split_tail :: "string \<Rightarrow> string" where
  "split_tail i = drop 1 (dropWhile (\<lambda>c. c \<noteq> CHR ''_'') i)"

fun collect :: "(error + 'a) list \<Rightarrow> error + 'a list" where
  "collect [] = Inr []"
| "collect (x # xs) =
     (case x of
        Inl e \<Rightarrow> Inl e
      | Inr v \<Rightarrow> (case collect xs of Inl e \<Rightarrow> Inl e | Inr vs \<Rightarrow> Inr (v # vs)))"

text \<open>\<^verbatim>\<open>[int(i.split("_", 1)[1]) for i in present if i.startswith(prefix)]\<close>\<close>

definition ids_with_prefix :: "string \<Rightarrow> string list \<Rightarrow> error + int list" where
  "ids_with_prefix prefix present =
     collect (map (\<lambda>i. py_int (split_tail i)) (filter (\<lambda>i. startswith i prefix) present))"

definition sg_collab_pair :: "int \<Rightarrow> string \<Rightarrow> string \<Rightarrow> string \<Rightarrow> gstate \<Rightarrow> gstate" where
  "sg_collab_pair me etype a b st =
     sg_add_edge me b a etype [] (sg_add_edge me a b etype [] st)"

definition task_people :: "string list \<Rightarrow> task_assignee list \<Rightarrow> (string \<times> string list) list" where
  "task_people present tas =
     fold (\<lambda>a m.
             let pid = nid ''person'' (ta_person_id a); tid = nid ''task'' (ta_task_id a) in
             if pid \<in> set present \<and> tid \<in> set present then dd_add tid pid m else m)
          tas []"

definition proj_leads :: "string list \<Rightarrow> project_lead list \<Rightarrow> (string \<times> string list) list" where
  "proj_leads present pls =
     fold (\<lambda>pl m.
             let pid = nid ''person'' (pl_person_id pl); prid = nid ''project'' (pl_project_id pl) in
             if pid \<in> set present \<and> prid \<in> set present then dd_add prid pid m else m)
          pls []"

definition sg_collab :: "int \<Rightarrow> string \<Rightarrow> (string \<times> string list) list \<Rightarrow> gstate \<Rightarrow> gstate" where
  "sg_collab me etype groups_of st =
     fold (\<lambda>(_, ppl). for_pairs (sg_collab_pair me etype) (sort ppl)) groups_of st"

definition collab_pass :: "db \<Rightarrow> int \<Rightarrow> gstate \<Rightarrow> error + gstate" where
  "collab_pass d me st =
     (let present = node_ids st in
      case ids_with_prefix ''task_'' present of
        Inl e \<Rightarrow> Inl e
      | Inr t_ids \<Rightarrow>
          let st = (if t_ids = [] then st
                    else
                      let tas = filter (\<lambda>a. ta_task_id a \<in> set t_ids) (all_task_assignees d)
                      in sg_collab me ''COLLAB:TASK'' (task_people present tas) st)
          in
          (case ids_with_prefix ''project_'' present of
             Inl e \<Rightarrow> Inl e
           | Inr pr_ids \<Rightarrow>
               Inr (if pr_ids = [] then st
                    else
                      let pls = filter (\<lambda>pl. pl_project_id pl \<in> set pr_ids) (project_leads d)
                      in sg_collab me ''COLLAB:PROJECT'' (proj_leads present pls) st)))"

subsection \<open>The traversal\<close>

text \<open>
  \<^verbatim>\<open>get_entity_subgraph(db, centers, degrees, max_nodes, max_edges, include_collab)\<close>.
  \<open>centers\<close> is the list \<^verbatim>\<open>list(centers or [])\<close>. The result is \<open>Inl\<close> when the
  call raises and \<open>Inr\<close> of the returned dictionary otherwise.
\<close>

definition get_entity_subgraph ::
  "db \<Rightarrow> string list \<Rightarrow> int \<Rightarrow> int \<Rightarrow> int \<Rightarrow> bool \<Rightarrow> error + graph_response" where
  "get_entity_subgraph d centers degrees max_nodes max_edges include_collab =
     (let frontier = seed_frontier centers in
      if \<not> any_frontier frontier then Inr (safe_result init_gstate)
      else
        let st = materialize_centers d max_nodes frontier init_gstate;
            st = hops d max_nodes max_edges (nat (max 0 degrees)) frontier st
        in
        if include_collab \<and> node_ids st \<noteq> [] then
          (case collab_pass d max_edges st of
             Inl e \<Rightarrow> Inl e
           | Inr st' \<Rightarrow> Inr (safe_result st'))
        else Inr (safe_result st))"

section \<open>Invariants of a build\<close>

definition kinds :: "string list" where
  "kinds = [''person'', ''project'', ''task'', ''group'']"

text \<open>
  The state of a build is well formed when the node array lists, in order, exactly the
  node keys seen, the id set holds the ids of the node array, the edge array lists
  exactly the edge keys seen, and every edge joins two ids of the id set.
\<close>

definition wf_state :: "gstate \<Rightarrow> bool" where
  "wf_state st \<longleftrightarrow>
     distinct (seen_nodes st) \<and>
     fst ` set (seen_nodes st) \<subseteq> set kinds \<and>
     map (\<lambda>n. (n_type n, n_id n)) (nodes st) =
       map (\<lambda>(k, i). (k, nid k i)) (rev (seen_nodes st)) \<and>
     set (node_ids st) = n_id ` set (nodes st) \<and>
     map edge_key (edges st) = rev (seen_edges st) \<and>
     distinct (seen_edges st) \<and>
     (\<forall>e \<in> set (edges st). e_source e \<in> set (node_ids st) \<and> e_target e \<in> set (node_ids st))"

text \<open>A property of build states that both adders of a build keep.\<close>

definition sg_closed :: "int \<Rightarrow> int \<Rightarrow> (gstate \<Rightarrow> bool) \<Rightarrow> bool" where
  "sg_closed mn me P \<longleftrightarrow>
     (\<forall>k i l s e st. k \<in> set kinds \<longrightarrow> P st \<longrightarrow> P (sg_add_node mn k i l s e st)) \<and>
     (\<forall>src dst ty meta st. P st \<longrightarrow> P (sg_add_edge me src dst ty meta st))"

definition gn_edge_closed :: "(gstate \<Rightarrow> bool) \<Rightarrow> bool" where
  "gn_edge_closed P \<longleftrightarrow> (\<forall>src dst ty meta st. P st \<longrightarrow> P (gn_add_edge src dst ty meta st))"

definition sg_edge_closed :: "int \<Rightarrow> (gstate \<Rightarrow> bool) \<Rightarrow> bool" where
  "sg_edge_closed me P \<longleftrightarrow>
     (\<forall>src dst ty meta st. P st \<longrightarrow> P (sg_add_edge me src dst ty meta st))"

definition gn_closed :: "(gstate \<Rightarrow> bool) \<Rightarrow> bool" where
  "gn_closed P \<longleftrightarrow>
     (\<forall>k row st. k \<in> set kinds \<longrightarrow> P st \<longrightarrow> P (gn_add_node k row st)) \<and>
     (\<forall>src dst ty meta st. P st \<longrightarrow> P (gn_add_edge src dst ty meta st))"

text \<open>
  A role text that is one of the codes \<open>R\<close>, \<open>A\<close>, \<open>C\<close>, \<open>I\<close> or, in any case, one
  of the four role names.
\<close>

definition recognized_role :: "string \<Rightarrow> bool" where
  "recognized_role r \<longleftrightarrow>
     r \<in> set (map fst RACI_NAME) \<or> lower r \<in> set (map (lower \<circ> snd) RACI_NAME)"

text \<open>The budgets of a traversal, for budgets that are not negative.\<close>

definition budget_ok :: "int \<Rightarrow> int \<Rightarrow> gstate \<Rightarrow> bool" where
  "budget_ok mn me st \<longleftrightarrow>
     (0 \<le> mn \<longrightarrow> int (length (seen_nodes st)) \<le> mn) \<and>
     (0 \<le> me \<longrightarrow> int (length (seen_edges st)) \<le> me)"

text \<open>The numeric id read back from a node id.\<close>

definition id_of :: "string \<Rightarrow> int" where
  "id_of x = (case py_int (split_tail x) of Inr i \<Rightarrow> i | Inl _ \<Rightarrow> 0)"

text \<open>The state from which the response of a traversal is built.\<close>

definition sg_state :: "db \<Rightarrow> string list \<Rightarrow> int \<Rightarrow> int \<Rightarrow> int \<Rightarrow> gstate" where
  "sg_state d centers degrees mn me =
     hops d mn me (nat (max 0 degrees)) (seed_frontier centers)
       (materialize_centers d mn (seed_frontier centers) init_gstate)"

text \<open>Every edge of a response joins two ids of its node array.\<close>

definition closed_graph :: "graph_response \<Rightarrow> bool" where
  "closed_graph r \<longleftrightarrow>
     (\<forall>e \<in> set (resp_edges r).
        e_source e \<in> n_id ` set (resp_nodes r) \<and> e_target e \<in> n_id ` set (resp_nodes r))"

text \<open>
  The node array of a response lists node keys without repetition, so no two nodes share
  an id, and no two edges share the key of source, target and type.
\<close>

definition unique_keys :: "graph_response \<Rightarrow> bool" where
  "unique_keys r \<longleftrightarrow>
     (\<exists>ks. distinct ks \<and>
        map (\<lambda>n. (n_type n, n_id n)) (resp_nodes r) = map (\<lambda>(k, i). (k, nid k i)) ks) \<and>
     distinct (map n_id (resp_nodes r)) \<and>
     distinct (map edge_key (resp_edges r))"

text \<open>A small store for concrete instances of the theorems.\<close>

definition entity_row :: "int \<Rightarrow> string \<Rightarrow> entity" where
  "entity_row i name =
     \<lparr>e_id = i, e_name = name, e_email = None, e_status = None, e_description = None,
      e_project_id = None\<rparr>"

definition demo_db :: db where
  "demo_db =
     \<lparr>people = [entity_row 1 ''Ann'', entity_row 2 ''Bob'', entity_row 3 ''Cy''],
      projects = [entity_row 1 ''Apollo''],
      tasks = [(entity_row 1 ''Plan'')\<lparr>e_project_id := Some 1\<rparr>,
               (entity_row 2 ''Orphan'')\<lparr>e_project_id := Some 9\<rparr>],
      groups = [entity_row 1 ''Core''],
      person_relations = [\<lparr>from_person_id = 1, to_person_id = 3, rel_type = Some ''manages''\<rparr>],
      project_leads = [\<lparr>pl_project_id = 1, pl_person_id = 1, pl_role = Some ''Responsible''\<rparr>,
                       \<lparr>pl_project_id = 1, pl_person_id = 2, pl_role = Some ''Accountable''\<rparr>],
      all_task_assignees = [\<lparr>ta_task_id = 1, ta_person_id = 1, ta_role = Some ''r''\<rparr>,
                            \<lparr>ta_task_id = 1, ta_person_id = 2, ta_role = None\<rparr>],
      person_group_table = [(1, 1)],
      project_group = [(1, 1)]\<rparr>"

text \<open>A build state with two nodes and one edge that carries metadata.\<close>

definition demo_state :: gstate where
  "demo_state =
     sg_add_edge 10 ''person_1'' ''project_1'' ''RACI:R'' [(''note'', JStr ''first'')]
       (sg_add_node 10 ''project'' 1 (Some ''Apollo'') None None
         (sg_add_node 10 ''person'' 1 (Some ''Ann'') None None init_gstate))"

text \<open>The keys of the edges emitted so far.\<close>

definition edge_keys :: "gstate \<Rightarrow> (string \<times> string \<times> string) set" where
  "edge_keys st = edge_key ` set (edges st)"

text \<open>The ids of the rows of the four entity tables.\<close>

definition gn_node_ids :: "db \<Rightarrow> string set" where
  "gn_node_ids d =
     nid ''person'' ` e_id ` set (people d) \<union> nid ''project'' ` e_id ` set (projects d) \<union>
     nid ''task'' ` e_id ` set (tasks d) \<union> nid ''group'' ` e_id ` set (groups d)"

text \<open>
  One of the seven edge loops of the full materializer takes every state with \<open>I\<close>
  to a state with \<open>J\<close>.
\<close>

definition gn_stage :: "db \<Rightarrow> (gstate \<Rightarrow> bool) \<Rightarrow> (gstate \<Rightarrow> bool) \<Rightarrow> bool" where
  "gn_stage d I J \<longleftrightarrow>
       (\<forall>s. I s \<longrightarrow> J (fold (gn_rel_step d) (person_relations d) s)) \<or>
       (\<forall>s. I s \<longrightarrow> J (fold (gn_lead_step d) (project_leads d) s)) \<or>
       (\<forall>s. I s \<longrightarrow> J (fold (gn_task_step d) (tasks d) s)) \<or>
       (\<forall>s. I s \<longrightarrow> J (fold (gn_member_step d) (person_group_table d) s)) \<or>
       (\<forall>s. I s \<longrightarrow> J (fold (gn_in_group_step d) (project_group d) s)) \<or>
       (\<forall>s. I s \<longrightarrow> J (gn_collab ''COLLAB:TASK'' (task_to_people d) s)) \<or>
       (\<forall>s. I s \<longrightarrow> J (gn_collab ''COLLAB:PROJECT'' (proj_to_leads d) s))"

text \<open>The node ids and the edge keys of a response.\<close>

definition graph_node_ids :: "graph_response \<Rightarrow> string set" where
  "graph_node_ids r = n_id ` set (resp_nodes r)"

definition graph_edge_keys :: "graph_response \<Rightarrow> (string \<times> string \<times> string) set" where
  "graph_edge_keys r = edge_key ` set (resp_edges r)"

text \<open>The task of the demo store whose project is not in the store.\<close>

definition orphan_task :: entity where
  "orphan_task = (entity_row 2 ''Orphan'')\<lparr>e_project_id := Some 9\<rparr>"

text \<open>
  A store whose lead and assignee rows hold a role with blanks around it, as the create
  and update paths of projects and tasks store it.
\<close>

definition raw_role_db :: db where
  "raw_role_db =
     \<lparr>people = [entity_row 1 ''Ann''],
      projects = [entity_row 1 ''Apollo''],
      tasks = [(entity_row 1 ''Plan'')\<lparr>e_project_id := Some 1\<rparr>],
      groups = [],
      person_relations = [],
      project_leads = [\<lparr>pl_project_id = 1, pl_person_id = 1, pl_role = Some '' responsible ''\<rparr>],
      all_task_assignees = [\<lparr>ta_task_id = 1, ta_person_id = 1, ta_role = Some '' responsible ''\<rparr>],
      person_group_table = [],
      project_group = []\<rparr>"

text \<open>The edge types of the collaboration pass.\<close>

definition collab_types :: "string set" where
  "collab_types = {''COLLAB:TASK'', ''COLLAB:PROJECT''}"

text \<open>The state after the centers are materialized.\<close>

definition center_state :: "db \<Rightarrow> string list \<Rightarrow> int \<Rightarrow> gstate" where
  "center_state d centers mn = materialize_centers d mn (seed_frontier centers) init_gstate"

section \<open>Text and id lemmas\<close>

lemma digit_val_digit_char: "d < 10 \<Longrightarrow> digit_val (digit_char d) = d"
  by (simp add: digit_val_def digit_char_def)

lemma isdigit_digit_char: "d < 10 \<Longrightarrow> isdigit (digit_char d)"
  by (simp add: isdigit_def digit_char_def)

lemma digits_val_snoc: "digits_val (ds @ [c]) = 10 * digits_val ds + digit_val c"
  by (simp add: digits_val_def)

lemma show_nat_digits: "list_all isdigit (show_nat n)"
proof (induction n rule: show_nat.induct)
  case (1 n)
  show ?case
  proof (cases "n < 10")
    case True
    then show ?thesis by (subst show_nat.simps) (simp add: isdigit_digit_char)
  next
    case False
    with 1 show ?thesis by (subst show_nat.simps) (simp add: isdigit_digit_char)
  qed
qed

lemma show_nat_nonempty: "show_nat n \<noteq> []"
  by (subst show_nat.simps) simp

lemma digits_val_show_nat: "digits_val (show_nat n) = n"
proof (induction n rule: show_nat.induct)
  case (1 n)
  show ?case
  proof (cases "n < 10")
    case True
    then show ?thesis
      by (subst show_nat.simps) (simp add: digits_val_def digit_val_digit_char)
  next
    case False
    with 1 show ?thesis
      by (subst show_nat.simps) (simp add: digits_val_snoc digit_val_digit_char)
  qed
qed

lemma isdigit_not_minus: "isdigit c \<Longrightarrow> c \<noteq> CHR ''-'' \<and> c \<noteq> CHR ''_''"
  by (auto simp: isdigit_def)

lemma hd_show_nat: "hd (show_nat n) \<noteq> CHR ''-''"
  using show_nat_digits [of n] show_nat_nonempty [of n] isdigit_not_minus
  by (cases "show_nat n") auto

text \<open>Reading back the decimal text of an integer gives the integer.\<close>

lemma py_int_show_int: "py_int (show_int i) = Inr i"
  by (simp add: py_int_def show_int_def show_nat_nonempty hd_show_nat show_nat_digits
      digits_val_show_nat)

lemma show_int_inj: "show_int i = show_int j \<Longrightarrow> i = j"
proof -
  assume "show_int i = show_int j"
  then have "py_int (show_int i) = py_int (show_int j)" by (rule arg_cong)
  then show "i = j" by (simp only: py_int_show_int sum.inject)
qed

lemma show_nat_no_underscore: "CHR ''_'' \<notin> set (show_nat n)"
proof
  assume "CHR ''_'' \<in> set (show_nat n)"
  with show_nat_digits [of n] have "isdigit CHR ''_''" by (simp add: list_all_iff)
  then show False by (simp add: isdigit_def)
qed

lemma split_tail_underscore: "CHR ''_'' \<notin> set k \<Longrightarrow> split_tail (k @ CHR ''_'' # t) = t"
  by (induction k) (auto simp: split_tail_def)

lemma kinds_no_underscore: "k \<in> set kinds \<Longrightarrow> CHR ''_'' \<notin> set k"
  by (auto simp: kinds_def)

lemma split_tail_nid: "k \<in> set kinds \<Longrightarrow> split_tail (nid k i) = show_int i"
  by (simp add: nid_def split_tail_underscore kinds_no_underscore)

lemma nid_split:
  assumes "CHR ''_'' \<notin> set k" "CHR ''_'' \<notin> set k'" "k @ CHR ''_'' # t = k' @ CHR ''_'' # t'"
  shows "k = k' \<and> t = t'"
proof -
  have "takeWhile (\<lambda>c. c \<noteq> CHR ''_'') (k @ CHR ''_'' # t) = k"
    using assms(1) by (induction k) auto
  moreover have "takeWhile (\<lambda>c. c \<noteq> CHR ''_'') (k' @ CHR ''_'' # t') = k'"
    using assms(2) by (induction k') auto
  ultimately have "k = k'" using assms(3) by simp
  with assms(3) show ?thesis by simp
qed

text \<open>Node ids determine the node key.\<close>

lemma nid_inj:
  "k \<in> set kinds \<Longrightarrow> k' \<in> set kinds \<Longrightarrow> nid k i = nid k' j \<Longrightarrow> k = k' \<and> i = j"
  using nid_split [of k k' "show_int i" "show_int j"]
  by (auto simp: nid_def kinds_no_underscore dest: show_int_inj)

lemma startswith_nid:
  assumes "CHR ''_'' \<notin> set k" "CHR ''_'' \<notin> set k'"
  shows "startswith (nid k i) (k' @ ''_'') \<longleftrightarrow> k = k'"
proof
  assume "startswith (nid k i) (k' @ ''_'')"
  then have "k @ CHR ''_'' # show_int i = k' @ CHR ''_'' # drop (Suc (length k')) (nid k i)"
    unfolding startswith_def nid_def
    by (metis append.assoc append_Cons append_Nil append_take_drop_id length_append_singleton)
  with nid_split [OF assms] show "k = k'" by blast
next
  assume "k = k'"
  then show "startswith (nid k i) (k' @ ''_'')" by (simp add: startswith_def nid_def)
qed

lemma startswith_nid_task:
  "k \<in> set kinds \<Longrightarrow> startswith (nid k i) ''task_'' \<longleftrightarrow> k = ''task''"
  using startswith_nid [of k "''task''" i] by (simp add: kinds_no_underscore)

lemma startswith_nid_project:
  "k \<in> set kinds \<Longrightarrow> startswith (nid k i) ''project_'' \<longleftrightarrow> k = ''project''"
  using startswith_nid [of k "''project''" i] by (simp add: kinds_no_underscore)

section \<open>RACI role codes\<close>

lemma upper_char_idem: "upper_char (upper_char c) = upper_char c"
  by (simp add: upper_char_def)

lemma upper_take1_capitalize: "upper (take (Suc 0) (capitalize r)) = upper (take (Suc 0) r)"
  by (cases r) (simp_all add: capitalize_def upper_def upper_char_idem)

lemma RACI_NAME_keys: "map_of RACI_NAME up = Some n \<Longrightarrow> length up = 1"
  by (auto simp: RACI_NAME_def split: if_splits)

lemma upper_take1: "length (upper r) = 1 \<Longrightarrow> upper (take (Suc 0) r) = upper r"
  by (simp add: upper_def)

lemma normalize_raci_first_letter:
  assumes "r \<noteq> []"
  shows "normalize_raci (Some r) =
           (case map_of RACI_NAME (upper (take 1 (strip r))) of
              Some n \<Rightarrow> n | None \<Rightarrow> capitalize (strip r))"
proof (cases "map_of RACI_NAME (upper (strip r))")
  case None
  with assms show ?thesis
    by (simp add: normalize_raci_def Let_def upper_take1_capitalize)
next
  case (Some n)
  then have "length (upper (strip r)) = 1" by (rule RACI_NAME_keys)
  then have "upper (take (Suc 0) (strip r)) = upper (strip r)" by (rule upper_take1)
  with Some assms show ?thesis by (simp add: normalize_raci_def Let_def)
qed

lemma raci_code_unlisted:
  "r \<noteq> [] \<Longrightarrow> map_of RACI_INITIAL r = None \<Longrightarrow> raci_code (Some r) = upper (take 1 r)"
  by (simp add: raci_code_def str_or_def)



text \<open>
  Claim C5, as stated, fails: the unrecognized role \<open>xyz\<close> is normalized to \<open>Xyz\<close>,
  not to \<open>Responsible\<close>, and gets the code \<open>X\<close>, not \<open>R\<close>.
\<close>

theorem raci_default_counterexample:
  "\<not> recognized_role ''xyz'' \<and>
   normalize_raci (Some ''xyz'') = ''Xyz'' \<and> normalize_raci (Some ''xyz'') \<noteq> ''Responsible'' \<and>
   raci_code (Some ''xyz'') = ''X'' \<and> raci_code (Some ''xyz'') \<noteq> ''R''"
  by code_simp

text \<open>
  Claim C5, amended. For an empty or absent role the edge-type code is \<open>R\<close>. For a
  non-empty role that is not one of the four role names as the table spells them, the
  code is the first character of the role in upper case. The normalization of a
  non-empty role is the role name whose initial is the first character of the stripped
  role in upper case, when there is one, and the stripped role capitalized otherwise.
  (What the normalization makes of an empty or absent role is no part of the amended
  claim.)
\<close>

theorem raci_default_amended:
  "raci_code None = ''R'' \<and> raci_code (Some []) = ''R'' \<and>
   (r \<noteq> [] \<and> map_of RACI_INITIAL r = None \<longrightarrow> raci_code (Some r) = upper (take 1 r)) \<and>
   (r \<noteq> [] \<longrightarrow>
      normalize_raci (Some r) =
        (case map_of RACI_NAME (upper (take 1 (strip r))) of
           Some n \<Rightarrow> n | None \<Rightarrow> capitalize (strip r)))"
proof -
  have "raci_code None = ''R''" "raci_code (Some []) = ''R''"
    by code_simp+
  then show ?thesis
    using raci_code_unlisted [of r] normalize_raci_first_letter [of r] by blast
qed

theorem raci_default_amended_witness:
  "''xyz'' \<noteq> [] \<and> map_of RACI_INITIAL ''xyz'' = None \<and>
   raci_code (Some ''xyz'') = ''X'' \<and> normalize_raci (Some ''xyz'') = ''Xyz'' \<and>
   normalize_raci (Some ''apple'') = ''Accountable''"
proof -
  have a: "''xyz'' \<noteq> []" "map_of RACI_INITIAL ''xyz'' = None" by code_simp+
  have b: "upper (take 1 ''xyz'') = ''X''"
    "(case map_of RACI_NAME (upper (take 1 (strip ''xyz''))) of
        Some n \<Rightarrow> n | None \<Rightarrow> capitalize (strip ''xyz'')) = ''Xyz''"
    by code_simp+
  have c: "''apple'' \<noteq> []"
    "(case map_of RACI_NAME (upper (take 1 (strip ''apple''))) of
        Some n \<Rightarrow> n | None \<Rightarrow> capitalize (strip ''apple'')) = ''Accountable''"
    by code_simp+
  show ?thesis
    using raci_default_amended [of "''xyz''"] raci_default_amended [of "''apple''"] a b c
    by simp
qed

section \<open>Properties kept by every step of a build\<close>

lemma fold_pres:
  assumes "\<And>x s. P s \<Longrightarrow> P (f x s)" and "P s"
  shows "P (fold f xs s)"
  using assms(2) by (induction xs arbitrary: s) (auto intro: assms(1))

lemma kinds_mem [simp]:
  "''person'' \<in> set kinds" "''project'' \<in> set kinds" "''task'' \<in> set kinds"
  "''group'' \<in> set kinds"
  by (simp_all add: kinds_def)

lemma sg_closed_node:
  "sg_closed mn me P \<Longrightarrow> k \<in> set kinds \<Longrightarrow> P st \<Longrightarrow> P (sg_add_node mn k i l s e st)"
  by (simp add: sg_closed_def)

lemma sg_closed_edge:
  "sg_closed mn me P \<Longrightarrow> P st \<Longrightarrow> P (sg_add_edge me src dst ty meta st)"
  by (simp add: sg_closed_def)

lemma sg_closed_visit:
  "sg_closed mn me P \<Longrightarrow> k \<in> set kinds \<Longrightarrow> P st \<Longrightarrow>
   P (sg_add_edge me src dst ty meta (sg_add_node mn k i l s e st))"
  by (simp add: sg_closed_node sg_closed_edge)

lemma hop_proj_task_step_closed:
  "sg_closed mn me P \<Longrightarrow> P (fst s) \<Longrightarrow> P (fst (hop_proj_task_step mn me row s))"
  by (cases s; cases row) (simp add: hop_proj_task_step_def sg_closed_visit)

lemma hop_lead_step_closed:
  "sg_closed mn me P \<Longrightarrow> P (fst s) \<Longrightarrow> P (fst (hop_lead_step mn me m pl s))"
  by (cases s) (simp add: hop_lead_step_def sg_closed_visit split: option.split)

lemma hop_proj_group_step_closed:
  "sg_closed mn me P \<Longrightarrow> P (fst s) \<Longrightarrow> P (fst (hop_proj_group_step mn me m row s))"
  by (cases s; cases row) (simp add: hop_proj_group_step_def sg_closed_visit split: option.split)

lemma hop_task_proj_step_closed:
  "sg_closed mn me P \<Longrightarrow> P (fst s) \<Longrightarrow> P (fst (hop_task_proj_step mn me m row s))"
  by (cases s; cases row) (simp add: hop_task_proj_step_def sg_closed_visit split: option.split)

lemma hop_assignee_step_closed:
  "sg_closed mn me P \<Longrightarrow> P (fst s) \<Longrightarrow> P (fst (hop_assignee_step mn me m a s))"
  by (cases s) (simp add: hop_assignee_step_def sg_closed_visit split: option.split)

lemma hop_rel_out_step_closed:
  "sg_closed mn me P \<Longrightarrow> P (fst s) \<Longrightarrow> P (fst (hop_rel_out_step mn me m r s))"
  by (cases s) (simp add: hop_rel_out_step_def sg_closed_visit split: option.split)

lemma hop_rel_in_step_closed:
  "sg_closed mn me P \<Longrightarrow> P (fst s) \<Longrightarrow> P (fst (hop_rel_in_step mn me m r s))"
  by (cases s) (simp add: hop_rel_in_step_def sg_closed_visit split: option.split)

lemma hop_member_group_step_closed:
  "sg_closed mn me P \<Longrightarrow> P (fst s) \<Longrightarrow> P (fst (hop_member_group_step mn me m row s))"
  by (cases s; cases row) (simp add: hop_member_group_step_def sg_closed_visit split: option.split)

lemma hop_person_lead_step_closed:
  "sg_closed mn me P \<Longrightarrow> P (fst s) \<Longrightarrow> P (fst (hop_person_lead_step mn me m pl s))"
  by (cases s) (simp add: hop_person_lead_step_def sg_closed_visit split: option.split)

lemma hop_person_task_step_closed:
  "sg_closed mn me P \<Longrightarrow> P (fst s) \<Longrightarrow> P (fst (hop_person_task_step mn me m a s))"
  by (cases s) (simp add: hop_person_task_step_def sg_closed_visit split: option.split)

lemma hop_group_member_step_closed:
  "sg_closed mn me P \<Longrightarrow> P (fst s) \<Longrightarrow> P (fst (hop_group_member_step mn me m row s))"
  by (cases s; cases row) (simp add: hop_group_member_step_def sg_closed_visit split: option.split)

lemma hop_group_proj_step_closed:
  "sg_closed mn me P \<Longrightarrow> P (fst s) \<Longrightarrow> P (fst (hop_group_proj_step mn me m row s))"
  by (cases s; cases row) (simp add: hop_group_proj_step_def sg_closed_visit split: option.split)

lemmas hop_step_closed =
  hop_proj_task_step_closed hop_lead_step_closed hop_proj_group_step_closed
  hop_task_proj_step_closed hop_assignee_step_closed hop_rel_out_step_closed
  hop_rel_in_step_closed hop_member_group_step_closed hop_person_lead_step_closed
  hop_person_task_step_closed hop_group_member_step_closed hop_group_proj_step_closed

lemma fold_fst_pres:
  assumes "\<And>x s. P (fst s) \<Longrightarrow> P (fst (f x s))" and "P (fst s)"
  shows "P (fst (fold f xs s))"
  using fold_pres [where P = "\<lambda>s. P (fst s)" and f = f and s = s and xs = xs] assms by blast

lemma if_fst_pres: "P (fst a) \<Longrightarrow> P (fst b) \<Longrightarrow> P (fst (if c then a else b))"
  by simp

lemma expand_project_closed:
  assumes "sg_closed mn me P" "P (fst s)"
  shows "P (fst (expand_project d mn me ids s))"
  unfolding expand_project_def Let_def
  by (intro if_fst_pres [where P = P] fold_fst_pres [where P = P]
      hop_step_closed [OF assms(1)]; (assumption | rule assms(2)))

lemma expand_task_closed:
  assumes "sg_closed mn me P" "P (fst s)"
  shows "P (fst (expand_task d mn me ids s))"
  unfolding expand_task_def Let_def
  by (intro if_fst_pres [where P = P] fold_fst_pres [where P = P]
      hop_step_closed [OF assms(1)]; (assumption | rule assms(2)))

lemma expand_person_closed:
  assumes "sg_closed mn me P" "P (fst s)"
  shows "P (fst (expand_person d mn me ids s))"
  unfolding expand_person_def Let_def
  by (intro if_fst_pres [where P = P] fold_fst_pres [where P = P]
      hop_step_closed [OF assms(1)]; (assumption | rule assms(2)))

lemma expand_group_closed:
  assumes "sg_closed mn me P" "P (fst s)"
  shows "P (fst (expand_group d mn me ids s))"
  unfolding expand_group_def Let_def
  by (intro if_fst_pres [where P = P] fold_fst_pres [where P = P]
      hop_step_closed [OF assms(1)]; (assumption | rule assms(2)))

lemma hop_closed:
  assumes "sg_closed mn me P" "P st"
  shows "P (fst (hop d mn me fr st))"
  unfolding hop_def
  by (intro expand_group_closed [OF assms(1)] expand_person_closed [OF assms(1)]
      expand_task_closed [OF assms(1)] expand_project_closed [OF assms(1)])
     (simp add: assms(2))

lemma hops_closed:
  assumes "sg_closed mn me P"
  shows "P st \<Longrightarrow> P (hops d mn me n fr st)"
proof (induction n arbitrary: fr st)
  case 0
  then show ?case by simp
next
  case (Suc n)
  have "P (fst (hop d mn me fr st))" using assms Suc.prems by (rule hop_closed)
  then show ?case using Suc by (auto split: prod.split)
qed

lemma if_pres: "P a \<Longrightarrow> P b \<Longrightarrow> P (if c then a else b)"
  by simp

lemma materialize_centers_closed:
  assumes "sg_closed mn me P" "P st"
  shows "P (materialize_centers d mn fr st)"
  unfolding materialize_centers_def Let_def
  by (intro if_pres [where P = P] fold_pres [where P = P] sg_closed_node [OF assms(1)];
      (assumption | rule assms(2) | simp))

lemma for_pairs_pres:
  assumes "\<And>a b s. P s \<Longrightarrow> P (f a b s)"
  shows "P s \<Longrightarrow> P (for_pairs f xs s)"
proof (induction xs arbitrary: s)
  case Nil
  then show ?case by simp
next
  case (Cons a xs)
  have "P (fold (f a) xs s)" by (rule fold_pres [where P = P]) (auto intro: assms Cons.prems)
  then show ?case using Cons.IH by simp
qed

lemma sg_collab_closed:
  assumes "sg_closed mn me P" "P st"
  shows "P (sg_collab me ty m st)"
  unfolding sg_collab_def
proof (rule fold_pres [where P = P, OF _ assms(2)])
  fix x :: "string \<times> string list" and s
  assume "P s"
  then show "P ((case x of (_, ppl) \<Rightarrow> for_pairs (sg_collab_pair me ty) (sort ppl)) s)"
    by (cases x) (simp add: for_pairs_pres [where P = P] sg_collab_pair_def
        sg_closed_edge [OF assms(1)])
qed

lemma collab_pass_closed:
  assumes "sg_closed mn me P" "P st" "collab_pass d me st = Inr st'"
  shows "P st'"
proof -
  have a: "\<And>ty m s. P s \<Longrightarrow> P (sg_collab me ty m s)"
    using assms(1) by (rule sg_collab_closed)
  show ?thesis
    using assms(3) a assms(2) unfolding collab_pass_def Let_def
    by (auto split: sum.splits if_splits)
qed

section \<open>Well-formed build states\<close>

lemma wf_init: "wf_state init_gstate"
  by (simp add: wf_state_def init_gstate_def)

lemma wf_sg_add_node:
  assumes "k \<in> set kinds" "wf_state st"
  shows "wf_state (sg_add_node mn k i l s e st)"
  using assms unfolding wf_state_def sg_add_node_def Let_def
  by (auto simp: List.insert_def)

lemma wf_sg_add_edge:
  assumes "wf_state st"
  shows "wf_state (sg_add_edge me src dst ty meta st)"
  using assms unfolding wf_state_def sg_add_edge_def Let_def
  by (auto simp: List.insert_def edge_key_def)

lemma wf_add_node_fields:
  assumes "wf_state st" "k \<in> set kinds" "(k, i) \<notin> set (seen_nodes st)"
    and "seen_nodes st' = (k, i) # seen_nodes st"
    and "set (node_ids st') = insert (nid k i) (set (node_ids st))"
    and "\<exists>n. nodes st' = nodes st @ [n] \<and> n_id n = nid k i \<and> n_type n = k"
    and "edges st' = edges st" "seen_edges st' = seen_edges st"
  shows "wf_state st'"
  using assms unfolding wf_state_def by auto

lemma wf_gn_add_node:
  assumes "k \<in> set kinds" "wf_state st"
  shows "wf_state (gn_add_node k row st)"
proof (cases "(k, e_id row) \<in> set (seen_nodes st)")
  case True
  then show ?thesis using assms(2) by (simp add: gn_add_node_def)
next
  case False
  from assms(1) consider "k = ''person''" | "k = ''project''" | "k = ''task''" | "k = ''group''"
    by (auto simp: kinds_def)
  then show ?thesis
  proof cases
    case 1
    show ?thesis
      by (rule wf_add_node_fields [OF assms(2) assms(1) False])
         (auto simp: 1 gn_add_node_def Let_def False [unfolded 1] List.insert_def)
  next
    case 2
    show ?thesis
      by (rule wf_add_node_fields [OF assms(2) assms(1) False])
         (auto simp: 2 gn_add_node_def Let_def False [unfolded 2] List.insert_def)
  next
    case 3
    show ?thesis
      by (rule wf_add_node_fields [OF assms(2) assms(1) False])
         (auto simp: 3 gn_add_node_def Let_def False [unfolded 3] List.insert_def)
  next
    case 4
    show ?thesis
      by (rule wf_add_node_fields [OF assms(2) assms(1) False])
         (auto simp: 4 gn_add_node_def Let_def False [unfolded 4] List.insert_def)
  qed
qed

lemma wf_gn_add_edge:
  assumes "wf_state st"
  shows "wf_state (gn_add_edge src dst ty meta st)"
  using assms unfolding wf_state_def gn_add_edge_def Let_def
  by (auto simp: List.insert_def edge_key_def)

lemma sg_closed_wf: "sg_closed mn me wf_state"
  by (simp add: sg_closed_def wf_sg_add_node wf_sg_add_edge)

lemma gn_closed_wf: "gn_closed wf_state"
  by (simp add: gn_closed_def wf_gn_add_node wf_gn_add_edge)

lemma budget_init: "budget_ok mn me init_gstate"
  by (simp add: budget_ok_def init_gstate_def)

lemma sg_closed_budget: "sg_closed mn me (budget_ok mn me)"
  by (auto simp: sg_closed_def budget_ok_def sg_add_node_def sg_add_edge_def Let_def
      List.insert_def)

lemma wf_node_ids_map:
  "wf_state st \<Longrightarrow> map n_id (nodes st) = map (\<lambda>(k, i). nid k i) (rev (seen_nodes st))"
proof -
  assume "wf_state st"
  then have "map snd (map (\<lambda>n. (n_type n, n_id n)) (nodes st)) =
             map snd (map (\<lambda>(k, i). (k, nid k i)) (rev (seen_nodes st)))"
    by (simp only: wf_state_def)
  then show ?thesis by (simp add: comp_def split_def)
qed

lemma wf_distinct_ids: "wf_state st \<Longrightarrow> distinct (map n_id (nodes st))"
proof -
  assume wf: "wf_state st"
  have "inj_on (\<lambda>(k, i). nid k i) (set (rev (seen_nodes st)))"
    using wf by (auto simp: wf_state_def inj_on_def dest!: nid_inj [rotated 2])
  moreover have "distinct (rev (seen_nodes st))" using wf by (simp add: wf_state_def)
  ultimately show ?thesis by (simp add: wf_node_ids_map [OF wf] distinct_map)
qed

lemma wf_distinct_edges: "wf_state st \<Longrightarrow> distinct (map edge_key (edges st))"
  by (simp add: wf_state_def)

lemma wf_length_nodes: "wf_state st \<Longrightarrow> length (nodes st) = length (seen_nodes st)"
proof -
  assume "wf_state st"
  then have "length (map (\<lambda>n. (n_type n, n_id n)) (nodes st)) =
             length (map (\<lambda>(k, i). (k, nid k i)) (rev (seen_nodes st)))"
    by (simp only: wf_state_def)
  then show ?thesis by simp
qed

lemma wf_length_edges: "wf_state st \<Longrightarrow> length (edges st) = length (seen_edges st)"
proof -
  assume "wf_state st"
  then have "length (map edge_key (edges st)) = length (rev (seen_edges st))"
    by (simp only: wf_state_def)
  then show ?thesis by simp
qed

section \<open>The two builds keep their state well formed\<close>

lemma gn_closed_node:
  "gn_closed P \<Longrightarrow> k \<in> set kinds \<Longrightarrow> P st \<Longrightarrow> P (gn_add_node k row st)"
  by (simp add: gn_closed_def)

lemma gn_closed_edge_closed: "gn_closed P \<Longrightarrow> gn_edge_closed P"
  by (simp add: gn_closed_def gn_edge_closed_def)

lemma gn_closed_edge:
  "gn_edge_closed P \<Longrightarrow> P st \<Longrightarrow> P (gn_add_edge src dst ty meta st)"
  by (simp add: gn_edge_closed_def)

lemma gn_rel_step_closed: "gn_edge_closed P \<Longrightarrow> P st \<Longrightarrow> P (gn_rel_step d r st)"
  by (simp add: gn_rel_step_def gn_closed_edge)

lemma gn_lead_step_closed: "gn_edge_closed P \<Longrightarrow> P st \<Longrightarrow> P (gn_lead_step d pl st)"
  by (simp add: gn_lead_step_def gn_closed_edge)

lemma gn_assignee_step_closed:
  "gn_edge_closed P \<Longrightarrow> P st \<Longrightarrow> P (gn_assignee_step d t ta st)"
  by (simp add: gn_assignee_step_def gn_closed_edge)

lemma gn_task_step_closed:
  assumes "gn_edge_closed P" "P st"
  shows "P (gn_task_step d t st)"
  unfolding gn_task_step_def Let_def
  by (rule fold_pres [where P = P])
     (auto simp: gn_assignee_step_closed [OF assms(1)] gn_closed_edge [OF assms(1)] assms(2)
        split: option.split)

lemma gn_member_step_closed: "gn_edge_closed P \<Longrightarrow> P st \<Longrightarrow> P (gn_member_step d row st)"
  by (cases row) (simp add: gn_member_step_def gn_closed_edge)

lemma gn_in_group_step_closed:
  "gn_edge_closed P \<Longrightarrow> P st \<Longrightarrow> P (gn_in_group_step d row st)"
  by (cases row) (simp add: gn_in_group_step_def gn_closed_edge)

lemma gn_collab_closed:
  assumes "gn_edge_closed P" "P st"
  shows "P (gn_collab ty m st)"
  unfolding gn_collab_def
proof (rule fold_pres [where P = P, OF _ assms(2)])
  fix x :: "int \<times> int list" and s
  assume "P s"
  then show "P ((case x of (_, pid_list) \<Rightarrow>
                   for_pairs (gn_collab_pair ty) (sorted_set pid_list)) s)"
    by (cases x) (simp add: for_pairs_pres [where P = P] gn_collab_pair_def
        gn_closed_edge [OF assms(1)])
qed

lemma gn_emit_edges_closed:
  assumes "gn_edge_closed P" "P st"
  shows "P (gn_emit_edges d st)"
  unfolding gn_emit_edges_def Let_def
  by (intro gn_collab_closed [OF assms(1)] fold_pres [where P = P]
      gn_in_group_step_closed [OF assms(1)] gn_member_step_closed [OF assms(1)]
      gn_task_step_closed [OF assms(1)] gn_lead_step_closed [OF assms(1)]
      gn_rel_step_closed [OF assms(1)]; (assumption | rule assms(2)))

lemma gn_emit_nodes_closed:
  assumes "gn_closed P" "P st"
  shows "P (gn_emit_nodes d st)"
  unfolding gn_emit_nodes_def Let_def
  by (intro fold_pres [where P = P] gn_closed_node [OF assms(1)];
      (assumption | rule assms(2) | simp))

lemma gn_build_closed:
  assumes "gn_closed P" "P init_gstate"
  shows "P (gn_build d)"
  unfolding gn_build_def
proof (rule gn_emit_edges_closed [where P = P])
  show "gn_edge_closed P" using assms(1) by (rule gn_closed_edge_closed)
  show "P (gn_emit_nodes d init_gstate)" using assms by (rule gn_emit_nodes_closed)
qed

lemma wf_gn_build: "wf_state (gn_build d)"
  by (rule gn_build_closed [OF gn_closed_wf wf_init])

lemma wf_node_ids_form:
  assumes "wf_state st" "x \<in> set (node_ids st)"
  shows "\<exists>k i. k \<in> set kinds \<and> (k, i) \<in> set (seen_nodes st) \<and> x = nid k i"
proof -
  from assms have "x \<in> set (map n_id (nodes st))" by (simp add: wf_state_def)
  then have "x \<in> set (map (\<lambda>(k, i). nid k i) (rev (seen_nodes st)))"
    by (simp only: wf_node_ids_map [OF assms(1)])
  then obtain k i where "(k, i) \<in> set (seen_nodes st)" "x = nid k i" by auto
  moreover from this assms(1) have "k \<in> set kinds" by (force simp: wf_state_def)
  ultimately show ?thesis by blast
qed

lemma collect_map:
  "(\<And>x. x \<in> set xs \<Longrightarrow> f x = Inr (g x)) \<Longrightarrow> collect (map f xs) = Inr (map g xs)"
  by (induction xs) auto

lemma id_of_nid: "k \<in> set kinds \<Longrightarrow> id_of (nid k i) = i"
  by (simp add: id_of_def split_tail_nid py_int_show_int)

lemma ids_with_prefix_wf:
  assumes "wf_state st"
  shows "ids_with_prefix p (node_ids st) =
           Inr (map id_of (filter (\<lambda>i. startswith i p) (node_ids st)))"
  unfolding ids_with_prefix_def
proof (rule collect_map)
  fix x assume "x \<in> set (filter (\<lambda>i. startswith i p) (node_ids st))"
  then have "x \<in> set (node_ids st)" by simp
  from wf_node_ids_form [OF assms this] obtain k i where "k \<in> set kinds" "x = nid k i"
    by blast
  then show "py_int (split_tail x) = Inr (id_of x)"
    by (simp add: id_of_nid split_tail_nid py_int_show_int)
qed

lemma collab_pass_total:
  assumes "wf_state st"
  shows "\<exists>st'. collab_pass d me st = Inr st'"
  unfolding collab_pass_def Let_def
  by (simp add: ids_with_prefix_wf [OF assms])

lemma sg_state_closed:
  assumes "sg_closed mn me P" "P init_gstate"
  shows "P (sg_state d cs deg mn me)"
  unfolding sg_state_def
  by (intro hops_closed [OF assms(1)] materialize_centers_closed [OF assms(1)] assms(2))

lemma subgraph_result:
  "\<exists>st. get_entity_subgraph d cs deg mn me ic = Inr (safe_result st) \<and>
        (\<forall>P. sg_closed mn me P \<longrightarrow> P init_gstate \<longrightarrow> P st)"
proof (cases "any_frontier (seed_frontier cs)")
  case False
  then have "get_entity_subgraph d cs deg mn me ic = Inr (safe_result init_gstate)"
    by (simp add: get_entity_subgraph_def)
  then show ?thesis by blast
next
  case True
  let ?st = "sg_state d cs deg mn me"
  have wf: "wf_state ?st" by (rule sg_state_closed [OF sg_closed_wf wf_init])
  show ?thesis
  proof (cases "ic \<and> node_ids ?st \<noteq> []")
    case False
    with True have "get_entity_subgraph d cs deg mn me ic = Inr (safe_result ?st)"
      by (auto simp: get_entity_subgraph_def sg_state_def Let_def)
    then show ?thesis using sg_state_closed by blast
  next
    case c: True
    from collab_pass_total [OF wf] obtain st' where st': "collab_pass d me ?st = Inr st'"
      by blast
    with True c have "get_entity_subgraph d cs deg mn me ic = Inr (safe_result st')"
      by (auto simp: get_entity_subgraph_def sg_state_def Let_def)
    moreover have "\<forall>P. sg_closed mn me P \<longrightarrow> P init_gstate \<longrightarrow> P st'"
      using collab_pass_closed [OF _ _ st'] sg_state_closed by blast
    ultimately show ?thesis by blast
  qed
qed

section \<open>Referential closure, unique keys and budgets\<close>

lemma wf_closed_graph: "wf_state st \<Longrightarrow> closed_graph (safe_result st)"
  unfolding wf_state_def closed_graph_def safe_result_def by force

lemma wf_unique_keys: "wf_state st \<Longrightarrow> unique_keys (safe_result st)"
  unfolding unique_keys_def
proof (intro conjI)
  assume wf: "wf_state st"
  then have "distinct (rev (seen_nodes st)) \<and>
    map (\<lambda>n. (n_type n, n_id n)) (resp_nodes (safe_result st)) =
    map (\<lambda>(k, i). (k, nid k i)) (rev (seen_nodes st))"
    by (simp add: wf_state_def safe_result_def)
  then show "\<exists>ks. distinct ks \<and>
    map (\<lambda>n. (n_type n, n_id n)) (resp_nodes (safe_result st)) =
    map (\<lambda>(k, i). (k, nid k i)) ks" by blast
  show "distinct (map n_id (resp_nodes (safe_result st)))"
    using wf_distinct_ids [OF wf] by (simp add: safe_result_def)
  show "distinct (map edge_key (resp_edges (safe_result st)))"
    using wf_distinct_edges [OF wf] by (simp add: safe_result_def)
qed

lemma subgraph_wf:
  "\<exists>st. get_entity_subgraph d cs deg mn me ic = Inr (safe_result st) \<and> wf_state st \<and>
        budget_ok mn me st"
  using subgraph_result [of d cs deg mn me ic] sg_closed_wf [of mn me] wf_init
    sg_closed_budget [of mn me] budget_init [of mn me]
  by blast

text \<open>
  Claim C1 (referential closure). In the graph of the full materializer and in the graph
  of the bounded traversal, which always returns one, the source and the target of every
  edge are ids of nodes of the node array.
\<close>

theorem referential_closure:
  "closed_graph (get_graph_network d) \<and>
   (\<exists>r. get_entity_subgraph d centers degrees max_nodes max_edges include_collab = Inr r \<and>
        closed_graph r)"
  using wf_closed_graph [OF wf_gn_build [of d]] wf_closed_graph
    subgraph_wf [of d centers degrees max_nodes max_edges include_collab]
  unfolding get_graph_network_def by blast

theorem referential_closure_witness:
  "\<lparr>e_source = ''task_1'', e_target = ''project_1'', e_type = ''PART_OF'', e_meta = []\<rparr>
     \<in> set (resp_edges (get_graph_network demo_db)) \<and>
   ''task_1'' \<in> n_id ` set (resp_nodes (get_graph_network demo_db)) \<and>
   ''project_1'' \<in> n_id ` set (resp_nodes (get_graph_network demo_db))"
proof -
  have mem: "\<lparr>e_source = ''task_1'', e_target = ''project_1'', e_type = ''PART_OF'', e_meta = []\<rparr>
     \<in> set (resp_edges (get_graph_network demo_db))"
    by code_simp
  from referential_closure [of demo_db "[]" 0 0 0 False]
  have "closed_graph (get_graph_network demo_db)" by blast
  with mem show ?thesis unfolding closed_graph_def by fastforce
qed

lemma gn_add_node_seen: "(k, e_id row) \<in> set (seen_nodes st) \<Longrightarrow> gn_add_node k row st = st"
  by (simp add: gn_add_node_def)

lemma sg_add_node_seen: "(k, i) \<in> set (seen_nodes st) \<Longrightarrow> sg_add_node mn k i l s e st = st"
  by (simp add: sg_add_node_def)

lemma gn_add_edge_seen:
  "(src, dst, ty) \<in> set (seen_edges st) \<Longrightarrow> gn_add_edge src dst ty meta st = st"
  by (simp add: gn_add_edge_def)

lemma sg_add_edge_seen:
  "(src, dst, ty) \<in> set (seen_edges st) \<Longrightarrow> sg_add_edge me src dst ty meta st = st"
  by (simp add: sg_add_edge_def)

text \<open>
  Claim C2 (dedup closure). In the graph of the full materializer and in the graph of
  the bounded traversal the node array lists pairwise different node keys (kind and
  numeric id), so no two nodes share an id, and no two edges share source, target and
  type. Adding a node or an edge whose key has been seen leaves the state as it is, so
  the first occurrence stays with its attributes and the second is dropped.
\<close>

theorem dedup_closure:
  "unique_keys (get_graph_network d) \<and>
   (\<exists>r. get_entity_subgraph d centers degrees max_nodes max_edges include_collab = Inr r \<and>
        unique_keys r) \<and>
   ((k, e_id row) \<in> set (seen_nodes st) \<longrightarrow> gn_add_node k row st = st) \<and>
   ((k, i) \<in> set (seen_nodes st) \<longrightarrow> sg_add_node max_nodes k i label status email st = st) \<and>
   ((src, dst, ty) \<in> set (seen_edges st) \<longrightarrow>
      gn_add_edge src dst ty meta st = st \<and> sg_add_edge max_edges src dst ty meta st = st)"
  using wf_unique_keys [OF wf_gn_build [of d]] wf_unique_keys
    subgraph_wf [of d centers degrees max_nodes max_edges include_collab]
    gn_add_node_seen [of k row st] sg_add_node_seen [of k i st max_nodes label status email]
    gn_add_edge_seen [of src dst ty st meta] sg_add_edge_seen [of src dst ty st max_edges meta]
  unfolding get_graph_network_def by blast

theorem dedup_closure_witness:
  "(''person'', 1) \<in> set (seen_nodes demo_state) \<and>
   sg_add_node 10 ''person'' 1 (Some ''Bob'') None (Some ''bob@x.org'') demo_state = demo_state \<and>
   gn_add_node ''person'' (entity_row 1 ''Bob'') demo_state = demo_state \<and>
   (''person_1'', ''project_1'', ''RACI:R'') \<in> set (seen_edges demo_state) \<and>
   sg_add_edge 10 ''person_1'' ''project_1'' ''RACI:R'' [(''note'', JStr ''second'')] demo_state
     = demo_state \<and>
   map edge_key (edges demo_state) = [(''person_1'', ''project_1'', ''RACI:R'')] \<and>
   map e_meta (edges demo_state) = [[(''note'', JStr ''first'')]] \<and>
   distinct (map n_id (resp_nodes (get_graph_network demo_db)))"
proof -
  have a: "(''person'', 1) \<in> set (seen_nodes demo_state)"
    "(''person'', e_id (entity_row 1 ''Bob'')) \<in> set (seen_nodes demo_state)"
    "(''person_1'', ''project_1'', ''RACI:R'') \<in> set (seen_edges demo_state)"
    "map edge_key (edges demo_state) = [(''person_1'', ''project_1'', ''RACI:R'')]"
    "map e_meta (edges demo_state) = [[(''note'', JStr ''first'')]]"
    by code_simp+
  show ?thesis
    using a
      dedup_closure [where d = demo_db and k = "''person''" and row = "entity_row 1 ''Bob''"
        and st = demo_state and i = 1 and max_nodes = 10 and label = "Some ''Bob''"
        and status = None and email = "Some ''bob@x.org''" and src = "''person_1''"
        and dst = "''project_1''" and ty = "''RACI:R''"
        and meta = "[(''note'', JStr ''second'')]" and max_edges = 10]
    unfolding unique_keys_def by simp
qed

lemma sg_add_node_full: "mn \<le> int (length (seen_nodes st)) \<Longrightarrow> sg_add_node mn k i l s e st = st"
  by (simp add: sg_add_node_def)

lemma sg_add_edge_full:
  "me \<le> int (length (seen_edges st)) \<Longrightarrow> sg_add_edge me src dst ty meta st = st"
  by (simp add: sg_add_edge_def)

lemma sg_add_node_grows:
  "length (seen_nodes st) \<le> length (seen_nodes (sg_add_node mn k i l s e st)) \<and>
   seen_edges (sg_add_node mn k i l s e st) = seen_edges st"
  by (simp add: sg_add_node_def Let_def List.insert_def)

lemma sg_add_edge_grows:
  "length (seen_edges st) \<le> length (seen_edges (sg_add_edge me src dst ty meta st)) \<and>
   seen_nodes (sg_add_edge me src dst ty meta st) = seen_nodes st"
  by (simp add: sg_add_edge_def Let_def List.insert_def)

lemma subgraph_budget:
  assumes "0 \<le> mn" "0 \<le> me"
  shows "\<exists>r. get_entity_subgraph d cs deg mn me ic = Inr r \<and>
            int (length (resp_nodes r)) \<le> mn \<and> int (length (resp_edges r)) \<le> me"
proof -
  from subgraph_wf [of d cs deg mn me ic] obtain st where
    r: "get_entity_subgraph d cs deg mn me ic = Inr (safe_result st)" and
    wf: "wf_state st" and b: "budget_ok mn me st" by blast
  have "int (length (nodes st)) \<le> mn" "int (length (edges st)) \<le> me"
    using b assms by (simp_all add: budget_ok_def wf_length_nodes [OF wf] wf_length_edges [OF wf])
  with r show ?thesis by (simp add: safe_result_def)
qed

text \<open>
  Claim C3 (budget respect). With budgets that are not negative the traversal returns a
  graph with at most \<open>max_nodes\<close> nodes and at most \<open>max_edges\<close> edges. Once
  the number of seen nodes (edges) has reached its budget, adding a node (an edge) leaves
  the state as it is; no adder ever lowers either number, so this holds to the end of
  the call.
\<close>

theorem budget_respect:
  "(0 \<le> max_nodes \<and> 0 \<le> max_edges \<longrightarrow>
      (\<exists>r. get_entity_subgraph d centers degrees max_nodes max_edges include_collab = Inr r \<and>
           int (length (resp_nodes r)) \<le> max_nodes \<and>
           int (length (resp_edges r)) \<le> max_edges)) \<and>
   (max_nodes \<le> int (length (seen_nodes st)) \<longrightarrow>
      sg_add_node max_nodes k i label status email st = st) \<and>
   (max_edges \<le> int (length (seen_edges st)) \<longrightarrow>
      sg_add_edge max_edges src dst ty meta st = st) \<and>
   length (seen_nodes st) \<le> length (seen_nodes (sg_add_node max_nodes k i label status email st)) \<and>
   seen_edges (sg_add_node max_nodes k i label status email st) = seen_edges st \<and>
   length (seen_edges st) \<le> length (seen_edges (sg_add_edge max_edges src dst ty meta st)) \<and>
   seen_nodes (sg_add_edge max_edges src dst ty meta st) = seen_nodes st"
  using subgraph_budget [of max_nodes max_edges d centers degrees include_collab]
    sg_add_node_full [of max_nodes st k i label status email]
    sg_add_edge_full [of max_edges st src dst ty meta]
    sg_add_node_grows [of st max_nodes k i label status email]
    sg_add_edge_grows [of st max_edges src dst ty meta]
  by blast

theorem budget_respect_witness:
  "(0::int) \<le> 2 \<and> (0::int) \<le> 1 \<and>
   (\<exists>r. get_entity_subgraph demo_db [''project_1''] 3 2 1 True = Inr r \<and>
        length (resp_nodes r) = 2 \<and> length (resp_edges r) = 1) \<and>
   (2::int) \<le> int (length (seen_nodes demo_state)) \<and>
   sg_add_node 2 ''task'' 7 None None None demo_state = demo_state \<and>
   (1::int) \<le> int (length (seen_edges demo_state)) \<and>
   sg_add_edge 1 ''project_1'' ''person_1'' ''X'' [] demo_state = demo_state"
proof -
  have a: "(2::int) \<le> int (length (seen_nodes demo_state))"
    "(1::int) \<le> int (length (seen_edges demo_state))"
    by code_simp+
  have b: "case get_entity_subgraph demo_db [''project_1''] 3 2 1 True of
             Inl _ \<Rightarrow> False
           | Inr r \<Rightarrow> length (resp_nodes r) = 2 \<and> length (resp_edges r) = 1"
    by code_simp
  show ?thesis
    using a b
      budget_respect [where max_nodes = 2 and max_edges = 1 and d = demo_db
        and centers = "[''project_1'']" and degrees = 3 and include_collab = True
        and st = demo_state and k = "''task''" and i = 7 and label = None and status = None
        and email = None and src = "''project_1''" and dst = "''person_1''" and ty = "''X''"
        and meta = "[]"]
    by (auto split: sum.splits)
qed

section \<open>Center tokens and degrees\<close>

lemma seed_step_invalid: "parse_node_id t = Inl e \<Longrightarrow> seed_step t fr = fr"
  by (simp add: seed_step_def)

lemma seed_frontier_invalid:
  assumes "\<forall>t \<in> set cs. \<exists>e. parse_node_id t = Inl e"
  shows "seed_frontier cs = empty_frontier"
proof -
  have "fold seed_step cs fr = fr" for fr
    using assms by (induction cs arbitrary: fr) (auto simp: seed_step_invalid)
  then show ?thesis by (simp add: seed_frontier_def)
qed

lemma subgraph_total: "\<exists>r. get_entity_subgraph d cs deg mn me ic = Inr r"
  using subgraph_result [of d cs deg mn me ic] by blast

lemma subgraph_invalid:
  assumes "\<forall>t \<in> set cs. \<exists>e. parse_node_id t = Inl e"
  shows "get_entity_subgraph d cs deg mn me ic =
           Inr \<lparr>resp_schema = GRAPH_SCHEMA, resp_nodes = [], resp_edges = []\<rparr>"
  by (simp add: get_entity_subgraph_def seed_frontier_invalid [OF assms] any_frontier_def
      empty_frontier_def safe_result_def init_gstate_def)

text \<open>
  Claim C7 (invalid-center total safety). The traversal never raises and always returns
  a response. When every center token fails the id grammar, as \<open>bogus\<close> does, the
  response has an empty node array and an empty edge array, whatever the store holds.
\<close>

theorem invalid_center_safety:
  "(\<exists>r. get_entity_subgraph d centers degrees max_nodes max_edges include_collab = Inr r) \<and>
   ((\<forall>t \<in> set centers. \<exists>e. parse_node_id t = Inl e) \<longrightarrow>
      get_entity_subgraph d centers degrees max_nodes max_edges include_collab =
        Inr \<lparr>resp_schema = GRAPH_SCHEMA, resp_nodes = [], resp_edges = []\<rparr>) \<and>
   parse_node_id ''bogus'' = Inl ValueError \<and>
   get_entity_subgraph d [''bogus''] degrees max_nodes max_edges include_collab =
     Inr \<lparr>resp_schema = GRAPH_SCHEMA, resp_nodes = [], resp_edges = []\<rparr>"
proof -
  have b: "parse_node_id ''bogus'' = Inl ValueError" by code_simp
  then have "\<forall>t \<in> set [''bogus'']. \<exists>e. parse_node_id t = Inl e" by simp
  then show ?thesis
    using b subgraph_total [of d centers degrees max_nodes max_edges include_collab]
      subgraph_invalid [of centers d degrees max_nodes max_edges include_collab]
      subgraph_invalid [of "[''bogus'']" d degrees max_nodes max_edges include_collab]
    by blast
qed

theorem invalid_center_safety_witness:
  "list_all (\<lambda>t. parse_node_id t = Inl ValueError)
     [''bogus'', ''person_x'', ''12'', ''team_3'', ''task_'', ''''] \<and>
   get_entity_subgraph demo_db [''bogus'', ''person_x'', ''12'', ''team_3'', ''task_'', '''']
       2 2000 4000 True =
     Inr \<lparr>resp_schema = GRAPH_SCHEMA, resp_nodes = [], resp_edges = []\<rparr>"
proof -
  have a: "list_all (\<lambda>t. parse_node_id t = Inl ValueError)
             [''bogus'', ''person_x'', ''12'', ''team_3'', ''task_'', '''']"
    by code_simp
  then have h: "\<forall>t \<in> set [''bogus'', ''person_x'', ''12'', ''team_3'', ''task_'', ''''].
      \<exists>e. parse_node_id t = Inl e"
    by (simp add: list_all_iff)
  show ?thesis
    using a h invalid_center_safety [where d = demo_db
        and centers = "[''bogus'', ''person_x'', ''12'', ''team_3'', ''task_'', '''']"
        and degrees = 2 and max_nodes = 2000 and max_edges = 4000 and include_collab = True]
    by blast
qed

text \<open>
  Claim C10 (negative degrees are clamped). With a negative number of degrees the
  traversal returns what it returns with zero degrees, and it does return a response.
\<close>

theorem negative_degrees_clamped:
  "degrees < 0 \<longrightarrow>
     get_entity_subgraph d centers degrees max_nodes max_edges include_collab =
       get_entity_subgraph d centers 0 max_nodes max_edges include_collab \<and>
     (\<exists>r. get_entity_subgraph d centers degrees max_nodes max_edges include_collab = Inr r)"
proof -
  have "degrees < 0 \<Longrightarrow>
     get_entity_subgraph d centers degrees max_nodes max_edges include_collab =
       get_entity_subgraph d centers 0 max_nodes max_edges include_collab"
  proof -
    assume "degrees < 0"
    then have "nat (max 0 degrees) = nat (max 0 0)" by simp
    then show ?thesis unfolding get_entity_subgraph_def by (simp only:)
  qed
  then show ?thesis
    using subgraph_total [of d centers degrees max_nodes max_edges include_collab] by blast
qed

theorem negative_degrees_clamped_witness:
  "(-3::int) < 0 \<and>
   get_entity_subgraph demo_db [''project_1''] (-3) 2000 4000 True =
     get_entity_subgraph demo_db [''project_1''] 0 2000 4000 True \<and>
   (\<exists>r. get_entity_subgraph demo_db [''project_1''] (-3) 2000 4000 True = Inr r \<and>
        map n_id (resp_nodes r) = [''project_1''] \<and> resp_edges r = [])"
proof -
  have b: "case get_entity_subgraph demo_db [''project_1''] 0 2000 4000 True of
             Inl _ \<Rightarrow> False
           | Inr r \<Rightarrow> map n_id (resp_nodes r) = [''project_1''] \<and> resp_edges r = []"
    by code_simp
  show ?thesis
    using b negative_degrees_clamped [where degrees = "-3" and d = demo_db
        and centers = "[''project_1'']" and max_nodes = 2000 and max_edges = 4000
        and include_collab = True]
    by (auto split: sum.splits)
qed

section \<open>Nodes and edges of the full graph\<close>

lemma set_have_ids [simp]: "set (have_ids rows) = e_id ` set rows"
  by (simp add: have_ids_def)

lemma fold_pres_mem:
  assumes "\<And>x s. x \<in> set xs \<Longrightarrow> P s \<Longrightarrow> P (f x s)" and "P s"
  shows "P (fold f xs s)"
  using assms by (induction xs arbitrary: s) auto

lemma fold_reach:
  assumes "x \<in> set xs"
    and "\<And>y s. I s \<Longrightarrow> I (f y s)"
    and "\<And>y s. J s \<Longrightarrow> J (f y s)"
    and "\<And>s. I s \<Longrightarrow> J (f x s)"
    and "I s"
  shows "J (fold f xs s)"
  using assms(1,5)
proof (induction xs arbitrary: s)
  case Nil
  then show ?case by simp
next
  case (Cons y ys)
  show ?case
  proof (cases "x = y")
    case True
    have "J (f y s)" using assms(4) Cons.prems(2) True by simp
    then have "J (fold f ys (f y s))" by (rule fold_pres [where P = J, rotated]) (rule assms(3))
    then show ?thesis by simp
  next
    case False
    with Cons.prems have "x \<in> set ys" by simp
    moreover have "I (f y s)" using Cons.prems(2) by (rule assms(2))
    ultimately have "J (fold f ys (f y s))" by (rule Cons.IH)
    then show ?thesis by simp
  qed
qed

lemma wf_seen_node_id:
  assumes "wf_state st" "(k, i) \<in> set (seen_nodes st)"
  shows "nid k i \<in> set (node_ids st)"
proof -
  have "nid k i \<in> set (map (\<lambda>(k, i). nid k i) (rev (seen_nodes st)))"
    using assms(2) by force
  then have "nid k i \<in> set (map n_id (nodes st))"
    by (simp only: wf_node_ids_map [OF assms(1)])
  then show ?thesis using assms(1) by (simp add: wf_state_def)
qed

lemma gn_add_node_ids:
  assumes "wf_state st" "k \<in> set kinds"
  shows "set (node_ids (gn_add_node k row st)) = insert (nid k (e_id row)) (set (node_ids st))"
proof (cases "(k, e_id row) \<in> set (seen_nodes st)")
  case True
  then show ?thesis using wf_seen_node_id [OF assms(1) True]
    by (auto simp: gn_add_node_def)
next
  case False
  then show ?thesis using assms(2) by (auto simp: gn_add_node_def Let_def kinds_def)
qed

lemma fold_gn_add_node_ids:
  assumes "k \<in> set kinds"
  shows "wf_state st \<Longrightarrow>
         wf_state (fold (gn_add_node k) rows st) \<and>
         set (node_ids (fold (gn_add_node k) rows st)) =
           set (node_ids st) \<union> nid k ` e_id ` set rows"
proof (induction rows arbitrary: st)
  case Nil
  then show ?case by simp
next
  case (Cons r rows)
  have wf: "wf_state (gn_add_node k r st)" using assms Cons.prems by (rule wf_gn_add_node)
  from Cons.IH [OF wf] show ?case
    by (auto simp: gn_add_node_ids [OF Cons.prems assms])
qed

lemma gn_emit_nodes_ids:
  "wf_state (gn_emit_nodes d init_gstate) \<and>
   set (node_ids (gn_emit_nodes d init_gstate)) = gn_node_ids d"
proof -
  define s1 where "s1 = fold (gn_add_node ''person'') (people d) init_gstate"
  define s2 where "s2 = fold (gn_add_node ''project'') (projects d) s1"
  define s3 where "s3 = fold (gn_add_node ''task'') (tasks d) s2"
  define s4 where "s4 = fold (gn_add_node ''group'') (groups d) s3"
  have 1: "wf_state s1 \<and>
      set (node_ids s1) = set (node_ids init_gstate) \<union> nid ''person'' ` e_id ` set (people d)"
    unfolding s1_def using wf_init by (rule fold_gn_add_node_ids [OF kinds_mem(1)])
  have 2: "wf_state s2 \<and>
      set (node_ids s2) = set (node_ids s1) \<union> nid ''project'' ` e_id ` set (projects d)"
    unfolding s2_def using 1 [THEN conjunct1] by (rule fold_gn_add_node_ids [OF kinds_mem(2)])
  have 3: "wf_state s3 \<and>
      set (node_ids s3) = set (node_ids s2) \<union> nid ''task'' ` e_id ` set (tasks d)"
    unfolding s3_def using 2 [THEN conjunct1] by (rule fold_gn_add_node_ids [OF kinds_mem(3)])
  have 4: "wf_state s4 \<and>
      set (node_ids s4) = set (node_ids s3) \<union> nid ''group'' ` e_id ` set (groups d)"
    unfolding s4_def using 3 [THEN conjunct1] by (rule fold_gn_add_node_ids [OF kinds_mem(4)])
  have e: "gn_emit_nodes d init_gstate = s4"
    by (simp add: gn_emit_nodes_def s1_def s2_def s3_def s4_def)
  have "set (node_ids init_gstate) = {}" by (simp add: init_gstate_def)
  with 1 2 3 4 show ?thesis unfolding e gn_node_ids_def by simp
qed

lemma gn_edge_closed_ids: "gn_edge_closed (\<lambda>s. set (node_ids s) = N)"
  by (simp add: gn_edge_closed_def gn_add_edge_def Let_def)

lemma gn_build_node_ids: "set (node_ids (gn_build d)) = gn_node_ids d"
  unfolding gn_build_def
  by (rule gn_emit_edges_closed [where P = "\<lambda>s. set (node_ids s) = gn_node_ids d",
        OF gn_edge_closed_ids]) (simp add: gn_emit_nodes_ids)

lemma gn_graph_node_ids: "n_id ` set (resp_nodes (get_graph_network d)) = gn_node_ids d"
  using wf_gn_build [of d] gn_build_node_ids [of d]
  by (simp add: get_graph_network_def safe_result_def wf_state_def)

lemma nid_kind_neq:
  "k \<in> set kinds \<Longrightarrow> k' \<in> set kinds \<Longrightarrow> k \<noteq> k' \<Longrightarrow> nid k i \<noteq> nid k' j"
  using nid_inj by blast

lemma nid_image_iff:
  assumes "k \<in> set kinds" "k' \<in> set kinds"
  shows "nid k i \<in> nid k' ` S \<longleftrightarrow> k = k' \<and> i \<in> S"
proof
  assume "nid k i \<in> nid k' ` S"
  then obtain j where "j \<in> S" "nid k i = nid k' j" by blast
  with nid_inj [OF assms this(2)] show "k = k' \<and> i \<in> S" by simp
next
  assume "k = k' \<and> i \<in> S"
  then show "nid k i \<in> nid k' ` S" by blast
qed

lemma nid_in_gn_node_ids:
  "nid ''person'' i \<in> gn_node_ids d \<longleftrightarrow> i \<in> e_id ` set (people d)"
  "nid ''project'' i \<in> gn_node_ids d \<longleftrightarrow> i \<in> e_id ` set (projects d)"
  "nid ''task'' i \<in> gn_node_ids d \<longleftrightarrow> i \<in> e_id ` set (tasks d)"
  "nid ''group'' i \<in> gn_node_ids d \<longleftrightarrow> i \<in> e_id ` set (groups d)"
  by (simp_all add: gn_node_ids_def nid_image_iff)

lemma wf_edge_keys: "wf_state st \<Longrightarrow> edge_keys st = set (seen_edges st)"
proof -
  assume "wf_state st"
  then have "set (map edge_key (edges st)) = set (rev (seen_edges st))"
    by (simp only: wf_state_def)
  then show ?thesis by (simp add: edge_keys_def)
qed

lemma gn_edge_closed_seen:
  "gn_edge_closed (\<lambda>s. set (node_ids s) = N \<and> key \<in> set (seen_edges s))"
  by (simp add: gn_edge_closed_def gn_add_edge_def Let_def)

lemma gn_add_edge_adds:
  assumes "src \<in> N" "dst \<in> N" "set (node_ids s) = N"
  shows "set (node_ids (gn_add_edge src dst ty meta s)) = N \<and>
         (src, dst, ty) \<in> set (seen_edges (gn_add_edge src dst ty meta s))"
  using assms by (simp add: gn_add_edge_def Let_def)

lemma gn_emit_edges_reach:
  assumes I: "gn_edge_closed I" and J: "gn_edge_closed J" and st: "I st"
    and stage:
      "gn_stage d I J"
  shows "J (gn_emit_edges d st)"
proof -
  note stage = stage [unfolded gn_stage_def]
  define s1 where "s1 = fold (gn_rel_step d) (person_relations d) st"
  define s2 where "s2 = fold (gn_lead_step d) (project_leads d) s1"
  define s3 where "s3 = fold (gn_task_step d) (tasks d) s2"
  define s4 where "s4 = fold (gn_member_step d) (person_group_table d) s3"
  define s5 where "s5 = fold (gn_in_group_step d) (project_group d) s4"
  define s6 where "s6 = gn_collab ''COLLAB:TASK'' (task_to_people d) s5"
  define s7 where "s7 = gn_collab ''COLLAB:PROJECT'' (proj_to_leads d) s6"
  have e: "gn_emit_edges d st = s7"
    by (simp add: gn_emit_edges_def s1_def s2_def s3_def s4_def s5_def s6_def s7_def)
  have c1: "P st \<Longrightarrow> P s1" if "gn_edge_closed P" for P
    unfolding s1_def by (rule fold_pres [where P = P]) (rule gn_rel_step_closed [OF that])
  have c2: "P s1 \<Longrightarrow> P s2" if "gn_edge_closed P" for P
    unfolding s2_def by (rule fold_pres [where P = P]) (rule gn_lead_step_closed [OF that])
  have c3: "P s2 \<Longrightarrow> P s3" if "gn_edge_closed P" for P
    unfolding s3_def by (rule fold_pres [where P = P]) (rule gn_task_step_closed [OF that])
  have c4: "P s3 \<Longrightarrow> P s4" if "gn_edge_closed P" for P
    unfolding s4_def by (rule fold_pres [where P = P]) (rule gn_member_step_closed [OF that])
  have c5: "P s4 \<Longrightarrow> P s5" if "gn_edge_closed P" for P
    unfolding s5_def by (rule fold_pres [where P = P]) (rule gn_in_group_step_closed [OF that])
  have c6: "P s5 \<Longrightarrow> P s6" if "gn_edge_closed P" for P
    unfolding s6_def by (rule gn_collab_closed [OF that])
  have c7: "P s6 \<Longrightarrow> P s7" if "gn_edge_closed P" for P
    unfolding s7_def by (rule gn_collab_closed [OF that])
  have i1: "I s1" using st by (rule c1 [OF I])
  have i2: "I s2" using i1 by (rule c2 [OF I])
  have i3: "I s3" using i2 by (rule c3 [OF I])
  have i4: "I s4" using i3 by (rule c4 [OF I])
  have i5: "I s5" using i4 by (rule c5 [OF I])
  have i6: "I s6" using i5 by (rule c6 [OF I])
  have j2: "J s1 \<Longrightarrow> J s2" by (rule c2 [OF J])
  have j3: "J s2 \<Longrightarrow> J s3" by (rule c3 [OF J])
  have j4: "J s3 \<Longrightarrow> J s4" by (rule c4 [OF J])
  have j5: "J s4 \<Longrightarrow> J s5" by (rule c5 [OF J])
  have j6: "J s5 \<Longrightarrow> J s6" by (rule c6 [OF J])
  have j7: "J s6 \<Longrightarrow> J s7" by (rule c7 [OF J])
  from stage consider
      "J s1" | "J s2" | "J s3" | "J s4" | "J s5" | "J s6" | "J s7"
    unfolding s1_def [symmetric] s2_def [symmetric] s3_def [symmetric] s4_def [symmetric]
      s5_def [symmetric] s6_def [symmetric] s7_def [symmetric]
    using st i1 i2 i3 i4 i5 i6
    unfolding s1_def s2_def s3_def s4_def s5_def s6_def s7_def by blast
  then have "J s7"
    using j2 j3 j4 j5 j6 j7 by cases blast+
  then show ?thesis by (simp only: e)
qed


lemma gn_build_has_edge:
  assumes src: "src \<in> gn_node_ids d" and dst: "dst \<in> gn_node_ids d"
    and stage: "\<And>I J. gn_edge_closed I \<Longrightarrow> gn_edge_closed J \<Longrightarrow>
       (\<And>s meta. I s \<Longrightarrow> J (gn_add_edge src dst ty meta s)) \<Longrightarrow>
       gn_stage d I J"
  shows "(src, dst, ty) \<in> edge_keys (gn_build d)"
proof -
  let ?I = "\<lambda>s. set (node_ids s) = gn_node_ids d"
  let ?J = "\<lambda>s. set (node_ids s) = gn_node_ids d \<and> (src, dst, ty) \<in> set (seen_edges s)"
  have I: "gn_edge_closed ?I" by (rule gn_edge_closed_ids)
  have J: "gn_edge_closed ?J" by (rule gn_edge_closed_seen)
  have est: "\<And>s meta. ?I s \<Longrightarrow> ?J (gn_add_edge src dst ty meta s)"
    using gn_add_edge_adds [OF src dst] by blast
  have "?J (gn_emit_edges d (gn_emit_nodes d init_gstate))"
    by (rule gn_emit_edges_reach [where I = ?I and J = ?J, OF I J _ stage [OF I J est]])
       (simp add: gn_emit_nodes_ids)
  then have "(src, dst, ty) \<in> set (seen_edges (gn_build d))" by (simp add: gn_build_def)
  then show ?thesis by (simp add: wf_edge_keys [OF wf_gn_build])
qed

lemma gn_rel_kept:
  assumes "r \<in> set (person_relations d)"
    and "from_person_id r \<in> e_id ` set (people d)" "to_person_id r \<in> e_id ` set (people d)"
  shows "(nid ''person'' (from_person_id r), nid ''person'' (to_person_id r),
          upper (str_or (rel_type r) ''REL'')) \<in> edge_keys (gn_build d)"
proof (rule gn_build_has_edge)
  show "nid ''person'' (from_person_id r) \<in> gn_node_ids d"
    "nid ''person'' (to_person_id r) \<in> gn_node_ids d"
    using assms by (simp_all add: nid_in_gn_node_ids)
next
  fix I J :: "gstate \<Rightarrow> bool"
  assume I: "gn_edge_closed I" and J: "gn_edge_closed J"
    and est: "\<And>s meta. I s \<Longrightarrow> J (gn_add_edge (nid ''person'' (from_person_id r))
        (nid ''person'' (to_person_id r)) (upper (str_or (rel_type r) ''REL'')) meta s)"
  have "J (fold (gn_rel_step d) (person_relations d) s)" if "I s" for s
  proof (rule fold_reach [where I = I and J = J and x = r, OF assms(1) _ _ _ that])
    show "\<And>y s. I s \<Longrightarrow> I (gn_rel_step d y s)" by (rule gn_rel_step_closed [OF I])
    show "\<And>y s. J s \<Longrightarrow> J (gn_rel_step d y s)" by (rule gn_rel_step_closed [OF J])
    show "\<And>s. I s \<Longrightarrow> J (gn_rel_step d r s)"
      using assms(2,3) est by (simp add: gn_rel_step_def)
  qed
  then show "gn_stage d I J"
    unfolding gn_stage_def by blast
qed


lemma gn_lead_kept:
  assumes "pl \<in> set (project_leads d)"
    and "pl_person_id pl \<in> e_id ` set (people d)" "pl_project_id pl \<in> e_id ` set (projects d)"
  shows "(nid ''person'' (pl_person_id pl), nid ''project'' (pl_project_id pl),
          raci_etype (pl_role pl)) \<in> edge_keys (gn_build d)"
proof (rule gn_build_has_edge)
  show "nid ''person'' (pl_person_id pl) \<in> gn_node_ids d"
    "nid ''project'' (pl_project_id pl) \<in> gn_node_ids d"
    using assms by (simp_all add: nid_in_gn_node_ids)
next
  fix I J :: "gstate \<Rightarrow> bool"
  assume I: "gn_edge_closed I" and J: "gn_edge_closed J"
    and est: "\<And>s meta. I s \<Longrightarrow> J (gn_add_edge (nid ''person'' (pl_person_id pl))
        (nid ''project'' (pl_project_id pl)) (raci_etype (pl_role pl)) meta s)"
  have "J (fold (gn_lead_step d) (project_leads d) s)" if "I s" for s
  proof (rule fold_reach [where I = I and J = J and x = pl, OF assms(1) _ _ _ that])
    show "\<And>y s. I s \<Longrightarrow> I (gn_lead_step d y s)" by (rule gn_lead_step_closed [OF I])
    show "\<And>y s. J s \<Longrightarrow> J (gn_lead_step d y s)" by (rule gn_lead_step_closed [OF J])
    show "\<And>s. I s \<Longrightarrow> J (gn_lead_step d pl s)"
      using assms(2,3) est by (simp add: gn_lead_step_def)
  qed
  then show "gn_stage d I J" unfolding gn_stage_def by blast
qed

lemma gn_part_of_kept:
  assumes "t \<in> set (tasks d)" "e_project_id t = Some p" "p \<noteq> 0"
    and "p \<in> e_id ` set (projects d)"
  shows "(nid ''task'' (e_id t), nid ''project'' p, ''PART_OF'') \<in> edge_keys (gn_build d)"
proof (rule gn_build_has_edge)
  show "nid ''task'' (e_id t) \<in> gn_node_ids d" "nid ''project'' p \<in> gn_node_ids d"
    using assms by (simp_all add: nid_in_gn_node_ids)
next
  fix I J :: "gstate \<Rightarrow> bool"
  assume I: "gn_edge_closed I" and J: "gn_edge_closed J"
    and est: "\<And>s meta. I s \<Longrightarrow>
        J (gn_add_edge (nid ''task'' (e_id t)) (nid ''project'' p) ''PART_OF'' meta s)"
  have "J (fold (gn_task_step d) (tasks d) s)" if "I s" for s
  proof (rule fold_reach [where I = I and J = J and x = t, OF assms(1) _ _ _ that])
    show "\<And>y s. I s \<Longrightarrow> I (gn_task_step d y s)" by (rule gn_task_step_closed [OF I])
    show "\<And>y s. J s \<Longrightarrow> J (gn_task_step d y s)" by (rule gn_task_step_closed [OF J])
    show "J (gn_task_step d t s)" if "I s" for s
    proof -
      have "J (gn_add_edge (nid ''task'' (e_id t)) (nid ''project'' p) ''PART_OF'' [] s)"
        using that by (rule est)
      then have "J (fold (gn_assignee_step d t) (task_assignees d t)
          (gn_add_edge (nid ''task'' (e_id t)) (nid ''project'' p) ''PART_OF'' [] s))"
        by (rule fold_pres [where P = J, rotated]) (rule gn_assignee_step_closed [OF J])
      then show ?thesis using assms(2,3,4) by (simp add: gn_task_step_def)
    qed
  qed
  then show "gn_stage d I J" unfolding gn_stage_def by blast
qed

lemma gn_assignee_kept:
  assumes "t \<in> set (tasks d)" "ta \<in> set (all_task_assignees d)" "ta_task_id ta = e_id t"
    and "ta_person_id ta \<in> e_id ` set (people d)"
  shows "(nid ''person'' (ta_person_id ta), nid ''task'' (e_id t), assignee_etype (ta_role ta))
           \<in> edge_keys (gn_build d)"
proof (rule gn_build_has_edge)
  show "nid ''person'' (ta_person_id ta) \<in> gn_node_ids d" "nid ''task'' (e_id t) \<in> gn_node_ids d"
    using assms by (simp_all add: nid_in_gn_node_ids)
next
  fix I J :: "gstate \<Rightarrow> bool"
  assume I: "gn_edge_closed I" and J: "gn_edge_closed J"
    and est: "\<And>s meta. I s \<Longrightarrow> J (gn_add_edge (nid ''person'' (ta_person_id ta))
        (nid ''task'' (e_id t)) (assignee_etype (ta_role ta)) meta s)"
  have mem: "ta \<in> set (task_assignees d t)" using assms(2,3) by (simp add: task_assignees_def)
  have "J (fold (gn_task_step d) (tasks d) s)" if "I s" for s
  proof (rule fold_reach [where I = I and J = J and x = t, OF assms(1) _ _ _ that])
    show "\<And>y s. I s \<Longrightarrow> I (gn_task_step d y s)" by (rule gn_task_step_closed [OF I])
    show "\<And>y s. J s \<Longrightarrow> J (gn_task_step d y s)" by (rule gn_task_step_closed [OF J])
    show "J (gn_task_step d t s)" if "I s" for s
    proof -
      have "J (fold (gn_assignee_step d t) (task_assignees d t) s')" if "I s'" for s'
      proof (rule fold_reach [where I = I and J = J and x = ta, OF mem _ _ _ that])
        show "\<And>y s. I s \<Longrightarrow> I (gn_assignee_step d t y s)"
          by (rule gn_assignee_step_closed [OF I])
        show "\<And>y s. J s \<Longrightarrow> J (gn_assignee_step d t y s)"
          by (rule gn_assignee_step_closed [OF J])
        show "\<And>s. I s \<Longrightarrow> J (gn_assignee_step d t ta s)"
          using assms(4) est by (simp add: gn_assignee_step_def)
      qed
      moreover have "I (case e_project_id t of None \<Rightarrow> s
           | Some p \<Rightarrow> if p \<noteq> 0 \<and> p \<in> set (have_ids (projects d))
               then gn_add_edge (nid ''task'' (e_id t)) (nid ''project'' p) ''PART_OF'' [] s
               else s)"
        using \<open>I s\<close> gn_closed_edge [OF I] by (simp split: option.split)
      ultimately show ?thesis by (simp add: gn_task_step_def)
    qed
  qed
  then show "gn_stage d I J" unfolding gn_stage_def by blast
qed

lemma gn_member_kept:
  assumes "(pid, gid) \<in> set (person_group_table d)"
    and "pid \<in> e_id ` set (people d)" "gid \<in> e_id ` set (groups d)"
  shows "(nid ''person'' pid, nid ''group'' gid, ''MEMBER_OF'') \<in> edge_keys (gn_build d)"
proof (rule gn_build_has_edge)
  show "nid ''person'' pid \<in> gn_node_ids d" "nid ''group'' gid \<in> gn_node_ids d"
    using assms by (simp_all add: nid_in_gn_node_ids)
next
  fix I J :: "gstate \<Rightarrow> bool"
  assume I: "gn_edge_closed I" and J: "gn_edge_closed J"
    and est: "\<And>s meta. I s \<Longrightarrow>
        J (gn_add_edge (nid ''person'' pid) (nid ''group'' gid) ''MEMBER_OF'' meta s)"
  have "J (fold (gn_member_step d) (person_group_table d) s)" if "I s" for s
  proof (rule fold_reach [where I = I and J = J and x = "(pid, gid)", OF assms(1) _ _ _ that])
    show "\<And>y s. I s \<Longrightarrow> I (gn_member_step d y s)" by (rule gn_member_step_closed [OF I])
    show "\<And>y s. J s \<Longrightarrow> J (gn_member_step d y s)" by (rule gn_member_step_closed [OF J])
    show "\<And>s. I s \<Longrightarrow> J (gn_member_step d (pid, gid) s)"
      using assms(2,3) est by (simp add: gn_member_step_def)
  qed
  then show "gn_stage d I J" unfolding gn_stage_def by blast
qed

lemma gn_in_group_kept:
  assumes "(prid, gid) \<in> set (project_group d)"
    and "prid \<in> e_id ` set (projects d)" "gid \<in> e_id ` set (groups d)"
  shows "(nid ''project'' prid, nid ''group'' gid, ''IN_GROUP'') \<in> edge_keys (gn_build d)"
proof (rule gn_build_has_edge)
  show "nid ''project'' prid \<in> gn_node_ids d" "nid ''group'' gid \<in> gn_node_ids d"
    using assms by (simp_all add: nid_in_gn_node_ids)
next
  fix I J :: "gstate \<Rightarrow> bool"
  assume I: "gn_edge_closed I" and J: "gn_edge_closed J"
    and est: "\<And>s meta. I s \<Longrightarrow>
        J (gn_add_edge (nid ''project'' prid) (nid ''group'' gid) ''IN_GROUP'' meta s)"
  have "J (fold (gn_in_group_step d) (project_group d) s)" if "I s" for s
  proof (rule fold_reach [where I = I and J = J and x = "(prid, gid)", OF assms(1) _ _ _ that])
    show "\<And>y s. I s \<Longrightarrow> I (gn_in_group_step d y s)" by (rule gn_in_group_step_closed [OF I])
    show "\<And>y s. J s \<Longrightarrow> J (gn_in_group_step d y s)" by (rule gn_in_group_step_closed [OF J])
    show "\<And>s. I s \<Longrightarrow> J (gn_in_group_step d (prid, gid) s)"
      using assms(2,3) est by (simp add: gn_in_group_step_def)
  qed
  then show "gn_stage d I J" unfolding gn_stage_def by blast
qed

section \<open>Dangling references\<close>

lemma gn_add_edge_keys:
  assumes "edge_keys st \<subseteq> K" "(src, dst, ty) \<in> K"
  shows "edge_keys (gn_add_edge src dst ty meta st) \<subseteq> K"
  using assms by (auto simp: edge_keys_def gn_add_edge_def Let_def edge_key_def)

lemma gn_emit_edges_keys:
  assumes person: "\<And>a dst ty. (nid ''person'' a, dst, ty) \<in> K"
    and project: "\<And>a dst ty. (nid ''project'' a, dst, ty) \<in> K"
    and task: "\<And>t p. t \<in> set (tasks d) \<Longrightarrow> e_project_id t = Some p \<Longrightarrow> p \<noteq> 0 \<Longrightarrow>
                 p \<in> e_id ` set (projects d) \<Longrightarrow>
                 (nid ''task'' (e_id t), nid ''project'' p, ''PART_OF'') \<in> K"
    and st: "edge_keys st \<subseteq> K"
  shows "edge_keys (gn_emit_edges d st) \<subseteq> K"
proof -
  let ?P = "\<lambda>s. edge_keys s \<subseteq> K"
  have pe: "?P (gn_add_edge (nid ''person'' a) dst ty meta s)" if "?P s" for a dst ty meta s
    using that person by (rule gn_add_edge_keys)
  have pr: "?P (gn_add_edge (nid ''project'' a) dst ty meta s)" if "?P s" for a dst ty meta s
    using that project by (rule gn_add_edge_keys)
  have rel: "?P (gn_rel_step d r s)" if "?P s" for r s
    using that pe by (simp add: gn_rel_step_def)
  have lead: "?P (gn_lead_step d pl s)" if "?P s" for pl s
    using that pe by (simp add: gn_lead_step_def)
  have asg: "?P (gn_assignee_step d t ta s)" if "?P s" for t ta s
    using that pe by (simp add: gn_assignee_step_def)
  have tsk: "?P (gn_task_step d t s)" if "?P s" "t \<in> set (tasks d)" for t s
  proof -
    have "?P (case e_project_id t of None \<Rightarrow> s
           | Some p \<Rightarrow> if p \<noteq> 0 \<and> p \<in> set (have_ids (projects d))
               then gn_add_edge (nid ''task'' (e_id t)) (nid ''project'' p) ''PART_OF'' [] s
               else s)"
    proof (cases "e_project_id t")
      case None
      then show ?thesis using that(1) by simp
    next
      case (Some p)
      show ?thesis
      proof (cases "p \<noteq> 0 \<and> p \<in> e_id ` set (projects d)")
        case True
        then have "(nid ''task'' (e_id t), nid ''project'' p, ''PART_OF'') \<in> K"
          using task [OF that(2) Some] by blast
        with that(1) have "?P (gn_add_edge (nid ''task'' (e_id t)) (nid ''project'' p)
            ''PART_OF'' [] s)" by (rule gn_add_edge_keys)
        with Some True show ?thesis by simp
      next
        case False
        with Some that(1) show ?thesis by auto
      qed
    qed
    then show ?thesis
      unfolding gn_task_step_def Let_def by (rule fold_pres [where P = ?P, rotated]) (rule asg)
  qed
  have mem: "?P (gn_member_step d row s)" if "?P s" for row s
    using that pe by (cases row) (simp add: gn_member_step_def)
  have grp: "?P (gn_in_group_step d row s)" if "?P s" for row s
    using that pr by (cases row) (simp add: gn_in_group_step_def)
  have col: "?P (gn_collab ty m s)" if "?P s" for ty m s
    unfolding gn_collab_def
  proof (rule fold_pres [where P = ?P, OF _ that])
    fix x :: "int \<times> int list" and s'
    assume "?P s'"
    then show "?P ((case x of (_, pid_list) \<Rightarrow>
                   for_pairs (gn_collab_pair ty) (sorted_set pid_list)) s')"
      by (cases x) (simp add: for_pairs_pres [where P = ?P] gn_collab_pair_def pe)
  qed
  define s1 where "s1 = fold (gn_rel_step d) (person_relations d) st"
  define s2 where "s2 = fold (gn_lead_step d) (project_leads d) s1"
  define s3 where "s3 = fold (gn_task_step d) (tasks d) s2"
  define s4 where "s4 = fold (gn_member_step d) (person_group_table d) s3"
  define s5 where "s5 = fold (gn_in_group_step d) (project_group d) s4"
  define s6 where "s6 = gn_collab ''COLLAB:TASK'' (task_to_people d) s5"
  define s7 where "s7 = gn_collab ''COLLAB:PROJECT'' (proj_to_leads d) s6"
  have e: "gn_emit_edges d st = s7"
    by (simp add: gn_emit_edges_def s1_def s2_def s3_def s4_def s5_def s6_def s7_def)
  have "?P s1" unfolding s1_def
    using st by (rule fold_pres [where P = ?P and f = "gn_rel_step d", rotated]) (rule rel)
  then have "?P s2" unfolding s2_def
    by (rule fold_pres [where P = ?P and f = "gn_lead_step d", rotated]) (rule lead)
  then have "?P s3" unfolding s3_def
    by (rule fold_pres_mem [where P = ?P and f = "gn_task_step d", rotated]) (rule tsk)
  then have "?P s4" unfolding s4_def
    by (rule fold_pres [where P = ?P and f = "gn_member_step d", rotated]) (rule mem)
  then have "?P s5" unfolding s5_def
    by (rule fold_pres [where P = ?P and f = "gn_in_group_step d", rotated]) (rule grp)
  then have "?P s6" unfolding s6_def by (rule col)
  then have "?P s7" unfolding s7_def by (rule col)
  then show ?thesis by (simp only: e)
qed

lemma gn_add_node_edges: "edges (gn_add_node k row st) = edges st"
  by (simp add: gn_add_node_def Let_def)

lemma fold_gn_add_node_edges: "edges (fold (gn_add_node k) rows st) = edges st"
  by (induction rows arbitrary: st) (simp_all add: gn_add_node_edges)

lemma gn_emit_nodes_no_edges: "edges (gn_emit_nodes d init_gstate) = []"
  by (simp add: gn_emit_nodes_def fold_gn_add_node_edges init_gstate_def)

lemma gn_build_keys:
  assumes "\<And>a dst ty. (nid ''person'' a, dst, ty) \<in> K"
    and "\<And>a dst ty. (nid ''project'' a, dst, ty) \<in> K"
    and "\<And>t p. t \<in> set (tasks d) \<Longrightarrow> e_project_id t = Some p \<Longrightarrow> p \<noteq> 0 \<Longrightarrow>
                 p \<in> e_id ` set (projects d) \<Longrightarrow>
                 (nid ''task'' (e_id t), nid ''project'' p, ''PART_OF'') \<in> K"
  shows "edge_keys (gn_build d) \<subseteq> K"
  unfolding gn_build_def
  by (rule gn_emit_edges_keys [OF assms]) (simp_all add: edge_keys_def gn_emit_nodes_no_edges)

lemma gn_no_part_of_for_dangling:
  assumes t: "t \<in> set (tasks d)" and p: "e_project_id t = Some p"
    and missing: "p \<notin> e_id ` set (projects d)" and pk: "distinct (map e_id (tasks d))"
  shows "(nid ''task'' (e_id t), dst, ''PART_OF'') \<notin> edge_keys (gn_build d)"
proof -
  let ?K = "{k. \<not> (fst k = nid ''task'' (e_id t) \<and> snd (snd k) = ''PART_OF'')}"
  have "edge_keys (gn_build d) \<subseteq> ?K"
  proof (rule gn_build_keys)
    show "\<And>a dst ty. (nid ''person'' a, dst, ty) \<in> ?K"
      using nid_kind_neq [of "''person''" "''task''"] by simp
    show "\<And>a dst ty. (nid ''project'' a, dst, ty) \<in> ?K"
      using nid_kind_neq [of "''project''" "''task''"] by simp
    fix t' p'
    assume t': "t' \<in> set (tasks d)" and p': "e_project_id t' = Some p'"
      and ok: "p' \<in> e_id ` set (projects d)"
    have "e_id t' \<noteq> e_id t"
    proof
      assume "e_id t' = e_id t"
      moreover have "inj_on e_id (set (tasks d))" using pk by (simp add: distinct_map)
      ultimately have "t' = t" using t t' by (simp add: inj_on_def)
      with p p' ok missing show False by simp
    qed
    then have "nid ''task'' (e_id t') \<noteq> nid ''task'' (e_id t)"
      using nid_inj [of "''task''" "''task''" "e_id t'" "e_id t"] by auto
    then show "(nid ''task'' (e_id t'), nid ''project'' p', ''PART_OF'') \<in> ?K" by simp
  qed
  then show ?thesis by auto
qed

lemma gn_no_edge_at_missing_project:
  assumes "p \<notin> e_id ` set (projects d)" "e \<in> set (resp_edges (get_graph_network d))"
  shows "e_source e \<noteq> nid ''project'' p \<and> e_target e \<noteq> nid ''project'' p"
proof -
  have "closed_graph (get_graph_network d)"
    unfolding get_graph_network_def by (rule wf_closed_graph [OF wf_gn_build])
  with assms(2) have "e_source e \<in> gn_node_ids d" "e_target e \<in> gn_node_ids d"
    by (auto simp: closed_graph_def gn_graph_node_ids)
  moreover have "nid ''project'' p \<notin> gn_node_ids d"
    using assms(1) by (simp add: nid_in_gn_node_ids)
  ultimately show ?thesis by auto
qed


lemma gn_graph_edge_keys: "graph_edge_keys (get_graph_network d) = edge_keys (gn_build d)"
  by (simp add: graph_edge_keys_def edge_keys_def get_graph_network_def safe_result_def)

lemma gn_graph_node_ids': "graph_node_ids (get_graph_network d) = gn_node_ids d"
  by (simp add: graph_node_ids_def gn_graph_node_ids)

lemma gn_dangling:
  assumes "t \<in> set (tasks d)" "e_project_id t = Some p" "p \<notin> e_id ` set (projects d)"
  shows "nid ''task'' (e_id t) \<in> graph_node_ids (get_graph_network d) \<and>
     (\<forall>e \<in> set (resp_edges (get_graph_network d)).
        e_source e \<noteq> nid ''project'' p \<and> e_target e \<noteq> nid ''project'' p) \<and>
     (distinct (map e_id (tasks d)) \<longrightarrow>
        (\<forall>e \<in> set (resp_edges (get_graph_network d)).
           \<not> (e_source e = nid ''task'' (e_id t) \<and> e_type e = ''PART_OF'')))"
proof (intro conjI impI ballI)
  show "nid ''task'' (e_id t) \<in> graph_node_ids (get_graph_network d)"
    using assms(1) by (simp add: gn_graph_node_ids' nid_in_gn_node_ids)
next
  fix e assume "e \<in> set (resp_edges (get_graph_network d))"
  from gn_no_edge_at_missing_project [OF assms(3) this]
  show "e_source e \<noteq> nid ''project'' p" "e_target e \<noteq> nid ''project'' p" by simp_all
next
  fix e assume pk: "distinct (map e_id (tasks d))"
    and e: "e \<in> set (resp_edges (get_graph_network d))"
  show "\<not> (e_source e = nid ''task'' (e_id t) \<and> e_type e = ''PART_OF'')"
  proof
    assume "e_source e = nid ''task'' (e_id t) \<and> e_type e = ''PART_OF''"
    then have "edge_key e = (nid ''task'' (e_id t), e_target e, ''PART_OF'')"
      by (simp add: edge_key_def)
    with e have "(nid ''task'' (e_id t), e_target e, ''PART_OF'')
        \<in> graph_edge_keys (get_graph_network d)"
      unfolding graph_edge_keys_def by (metis imageI)
    then show False
      using gn_no_part_of_for_dangling [OF assms pk] by (simp add: gn_graph_edge_keys)
  qed
qed



section \<open>The traversal with zero degrees\<close>

lemma sg_edge_closedI:
  "(\<And>src dst ty meta st. P st \<Longrightarrow> P (sg_add_edge me src dst ty meta st)) \<Longrightarrow> sg_edge_closed me P"
  by (simp add: sg_edge_closed_def)

lemma sg_edge_closed_edge:
  "sg_edge_closed me P \<Longrightarrow> P st \<Longrightarrow> P (sg_add_edge me src dst ty meta st)"
  by (simp add: sg_edge_closed_def)

lemma sg_collab_pres:
  assumes step: "\<And>src dst meta s. P s \<Longrightarrow> P (sg_add_edge me src dst ty meta s)"
    and "P st"
  shows "P (sg_collab me ty m st)"
  unfolding sg_collab_def
proof (rule fold_pres [where P = P, OF _ assms(2)])
  fix x :: "string \<times> string list" and s
  assume s: "P s"
  have pair: "P (sg_collab_pair me ty a b s)" if "P s" for a b s
    unfolding sg_collab_pair_def by (rule step, rule step, rule that)
  obtain k ppl where x: "x = (k, ppl)" by (cases x)
  have "P (for_pairs (sg_collab_pair me ty) (sort ppl) s)"
  proof (rule for_pairs_pres [where P = P and f = "sg_collab_pair me ty"])
    show "\<And>a b s. P s \<Longrightarrow> P (sg_collab_pair me ty a b s)" by (rule pair)
    show "P s" by (rule s)
  qed
  then show "P ((case x of (_, ppl) \<Rightarrow> for_pairs (sg_collab_pair me ty) (sort ppl)) s)"
    by (simp only: x prod.case)
qed

lemma sg_collab_edge_closed:
  assumes "sg_edge_closed me P" "P st"
  shows "P (sg_collab me ty m st)"
proof (rule sg_collab_pres [where P = P and me = me and ty = ty])
  show "\<And>src dst meta s. P s \<Longrightarrow> P (sg_add_edge me src dst ty meta s)"
    by (rule sg_edge_closed_edge [OF assms(1)])
  show "P st" by (rule assms(2))
qed

lemma collab_pass_edge_closed:
  assumes "sg_edge_closed me P" "P st" "collab_pass d me st = Inr st'"
  shows "P st'"
proof -
  have a: "\<And>ty m s. P s \<Longrightarrow> P (sg_collab me ty m s)"
    using assms(1) by (rule sg_collab_edge_closed)
  show ?thesis
    using assms(3) a assms(2) unfolding collab_pass_def Let_def
    by (auto split: sum.splits if_splits)
qed

lemma sg_add_edge_typed:
  assumes "\<forall>e \<in> set (edges st). e_type e \<in> T" "ty \<in> T"
  shows "\<forall>e \<in> set (edges (sg_add_edge me src dst ty meta st)). e_type e \<in> T"
  using assms by (auto simp: sg_add_edge_def Let_def)

lemma sg_collab_typed:
  assumes "ty \<in> T" "\<forall>e \<in> set (edges st). e_type e \<in> T"
  shows "\<forall>e \<in> set (edges (sg_collab me ty m st)). e_type e \<in> T"
proof (rule sg_collab_pres [where P = "\<lambda>s. \<forall>e \<in> set (edges s). e_type e \<in> T"
      and me = me and ty = ty])
  show "\<And>src dst meta s. \<forall>e \<in> set (edges s). e_type e \<in> T \<Longrightarrow>
      \<forall>e \<in> set (edges (sg_add_edge me src dst ty meta s)). e_type e \<in> T"
    using assms(1) by (rule sg_add_edge_typed [rotated])
  show "\<forall>e \<in> set (edges st). e_type e \<in> T" by (rule assms(2))
qed

lemma collab_pass_pres:
  assumes "\<And>m s. P s \<Longrightarrow> P (sg_collab me ''COLLAB:TASK'' m s)"
    and "\<And>m s. P s \<Longrightarrow> P (sg_collab me ''COLLAB:PROJECT'' m s)"
    and "P st" "collab_pass d me st = Inr st'"
  shows "P st'"
  using assms(4) assms(1,2,3) unfolding collab_pass_def Let_def
  by (auto split: sum.splits if_splits)

lemma collab_pass_typed:
  assumes "\<forall>e \<in> set (edges st). e_type e \<in> collab_types" "collab_pass d me st = Inr st'"
  shows "\<forall>e \<in> set (edges st'). e_type e \<in> collab_types"
proof (rule collab_pass_pres [where P = "\<lambda>s. \<forall>e \<in> set (edges s). e_type e \<in> collab_types"
      and me = me and st = st and d = d])
  show "\<And>m s. \<forall>e \<in> set (edges s). e_type e \<in> collab_types \<Longrightarrow>
      \<forall>e \<in> set (edges (sg_collab me ''COLLAB:TASK'' m s)). e_type e \<in> collab_types"
    by (rule sg_collab_typed) (simp add: collab_types_def)
  show "\<And>m s. \<forall>e \<in> set (edges s). e_type e \<in> collab_types \<Longrightarrow>
      \<forall>e \<in> set (edges (sg_collab me ''COLLAB:PROJECT'' m s)). e_type e \<in> collab_types"
    by (rule sg_collab_typed) (simp add: collab_types_def)
  show "\<forall>e \<in> set (edges st). e_type e \<in> collab_types" by (rule assms(1))
  show "collab_pass d me st = Inr st'" by (rule assms(2))
qed

lemma sg_add_node_edges: "edges (sg_add_node mn k i l s e st) = edges st"
  by (simp add: sg_add_node_def Let_def)

lemma fold_sg_add_node_edges:
  "edges (fold (\<lambda>r. sg_add_node mn k (f r) (l r) (s r) (e r)) rows st) = edges st"
  by (induction rows arbitrary: st) (simp_all add: sg_add_node_edges)

lemma materialize_centers_edges: "edges (materialize_centers d mn fr st) = edges st"
  by (simp add: materialize_centers_def Let_def fold_sg_add_node_edges)

lemma sg_edge_closed_nodes: "sg_edge_closed me (\<lambda>s. nodes s = ns \<and> node_ids s = is)"
  by (simp add: sg_edge_closed_def sg_add_edge_def Let_def)

lemma center_state_wf: "wf_state (center_state d cs mn)"
  unfolding center_state_def
  by (rule materialize_centers_closed [OF sg_closed_wf [of mn 0] wf_init])

lemma center_state_edges: "edges (center_state d cs mn) = []"
  by (simp add: center_state_def materialize_centers_edges init_gstate_def)

lemma materialize_empty_frontier:
  "\<not> any_frontier fr \<Longrightarrow> materialize_centers d mn fr st = st"
  by (simp add: materialize_centers_def any_frontier_def)

lemma degrees0_result:
  "\<exists>st. get_entity_subgraph d cs 0 mn me ic = Inr (safe_result st) \<and>
        nodes st = nodes (center_state d cs mn) \<and>
        node_ids st = node_ids (center_state d cs mn) \<and>
        (\<forall>e \<in> set (edges st). e_type e \<in> collab_types) \<and>
        (\<not> (ic \<and> node_ids (center_state d cs mn) \<noteq> []) \<longrightarrow> edges st = []) \<and>
        (ic \<and> node_ids (center_state d cs mn) \<noteq> [] \<longrightarrow>
           collab_pass d me (center_state d cs mn) = Inr st)"
proof (cases "any_frontier (seed_frontier cs)")
  case False
  then have r: "get_entity_subgraph d cs 0 mn me ic = Inr (safe_result init_gstate)"
    by (simp add: get_entity_subgraph_def)
  have c: "center_state d cs mn = init_gstate"
    using False by (simp add: center_state_def materialize_empty_frontier)
  show ?thesis
    by (rule exI [of _ init_gstate]) (simp add: r c, simp add: init_gstate_def)
next
  case True
  let ?st = "center_state d cs mn"
  show ?thesis
  proof (cases "ic \<and> node_ids ?st \<noteq> []")
    case False
    with True have "get_entity_subgraph d cs 0 mn me ic = Inr (safe_result ?st)"
      by (auto simp: get_entity_subgraph_def center_state_def Let_def)
    moreover have "ic \<Longrightarrow> edges ?st = []" by (rule center_state_edges)
    ultimately show ?thesis using False by (intro exI [of _ ?st]) (auto simp: center_state_edges)
  next
    case c: True
    from collab_pass_total [OF center_state_wf] obtain st' where
      st': "collab_pass d me ?st = Inr st'" by blast
    with True c have r: "get_entity_subgraph d cs 0 mn me ic = Inr (safe_result st')"
      by (auto simp: get_entity_subgraph_def center_state_def Let_def)
    have n: "nodes st' = nodes ?st \<and> node_ids st' = node_ids ?st"
      by (rule collab_pass_edge_closed [OF sg_edge_closed_nodes _ st']) simp
    have t: "\<forall>e \<in> set (edges st'). e_type e \<in> collab_types"
      by (rule collab_pass_typed [OF _ st']) (simp add: center_state_edges)
    show ?thesis using r n t c st' by (intro exI [of _ st']) simp
  qed
qed

end
